theory Spec2Isabelle
  imports Complex_Main
begin

section \<open>Symmetry-blocked matrices\<close>

text \<open>
  The solver in \<^verbatim>\<open>src/lib/libscf_solver/rohf.cc\<close> works on objects of the class
  \<^verbatim>\<open>Matrix\<close> (libmints), whose definition is not part of the files at hand; only its
  calls are. A double of the source is a \<^typ>\<open>real\<close> here: rounding is not modelled.
\<close>

text \<open>
  Modelled from the spec: the class \<^verbatim>\<open>Matrix\<close> (declared in libmints, not under src/).
  It is a sequence of dense blocks, one per irrep, addressed by block \<open>h\<close>, row \<open>i\<close> and
  column \<open>j\<close>; the dimension table is kept beside it (\<open>opi\<close> in the solver). An access
  outside the table is a contract violation in the source, and the statements below
  are about the entries inside the table.
\<close>

type_synonym matrix = "nat \<Rightarrow> nat \<Rightarrow> nat \<Rightarrow> real"

text \<open>Modelled from the spec: the class \<^verbatim>\<open>Vector\<close>, one block of numbers per irrep.\<close>

type_synonym vector = "nat \<Rightarrow> nat \<Rightarrow> real"

definition mat_get :: "matrix \<Rightarrow> nat \<Rightarrow> nat \<Rightarrow> nat \<Rightarrow> real" where
  "mat_get A h i j = A h i j"

definition mat_set :: "matrix \<Rightarrow> nat \<Rightarrow> nat \<Rightarrow> nat \<Rightarrow> real \<Rightarrow> matrix" where
  "mat_set A h i j v = A(h := (A h)(i := (A h i)(j := v)))"

definition mat_zero :: matrix where
  "mat_zero = (\<lambda>h i j. 0)"

definition mat_add :: "matrix \<Rightarrow> matrix \<Rightarrow> matrix" where
  "mat_add A B = (\<lambda>h i j. A h i j + B h i j)"

definition mat_scale :: "matrix \<Rightarrow> real \<Rightarrow> matrix" where
  "mat_scale A a = (\<lambda>h i j. a * A h i j)"

text \<open>
  Modelled from the spec: \<^verbatim>\<open>Matrix::transform(A, X)\<close> is the congruence transform
  \<open>X\<^sup>t A X\<close>, block by block.
\<close>

definition mat_transform :: "nat list \<Rightarrow> matrix \<Rightarrow> matrix \<Rightarrow> matrix" where
  "mat_transform dims A X =
     (\<lambda>h i j. \<Sum>k<dims ! h. \<Sum>l<dims ! h. X h k i * A h k l * X h l j)"

text \<open>
  Modelled from the spec: \<^verbatim>\<open>Matrix::gemm(false, false, 1.0, A, B, 0.0)\<close>, the product
  \<open>A B\<close> block by block.
\<close>

definition mat_gemm :: "nat list \<Rightarrow> matrix \<Rightarrow> matrix \<Rightarrow> matrix" where
  "mat_gemm dims A B = (\<lambda>h i j. \<Sum>k<dims ! h. A h i k * B h k j)"

text \<open>Modelled from the spec: \<^verbatim>\<open>Matrix::vector_dot\<close>, the trace inner product.\<close>

definition vector_dot :: "nat \<Rightarrow> nat list \<Rightarrow> matrix \<Rightarrow> matrix \<Rightarrow> real" where
  "vector_dot n dims A B =
     (\<Sum>h<n. \<Sum>i<dims ! h. \<Sum>j<dims ! h. A h i j * B h i j)"

section \<open>The state of the solver\<close>

text \<open>
  One buffer of the integral file: four labels per integral, the values, the number of
  integrals in the buffer and the flag of the last buffer (class \<^verbatim>\<open>IWL\<close>).
\<close>

record iwl_buffer =
  labels :: "int list"
  buf_values :: "real list"
  buffer_count :: nat
  last_buffer :: bool

text \<open>
  Modelled from the spec: the class \<^verbatim>\<open>DIISManager\<close> (libdiis, not under src/), a
  bounded history of (error vector, Fock snapshot) pairs with its capacity.
\<close>

record diis_manager =
  diis_capacity :: int
  diis_history :: "(matrix \<times> matrix) list"

text \<open>
  The members of \<^verbatim>\<open>ROHF\<close> and of its base class \<^verbatim>\<open>HF\<close> that the code reads or
  writes. A member \<^verbatim>\<open>x_\<close> of the source is the field \<open>x_'\<close>. \<open>nirreps\<close> and \<open>opi\<close> are
  the block count and the dimension table that every matrix of the factory shares;
  \<open>so_tei\<close> is the content of the integral file \<^verbatim>\<open>PSIF_SO_TEI\<close>.
\<close>

record rohf =
  nirreps :: nat
  opi :: "nat list"
  H_' :: matrix
  Shalf_' :: matrix
  Fc_' :: matrix
  Fo_' :: matrix
  Feff_' :: matrix
  C_' :: matrix
  Dc_' :: matrix
  Do_' :: matrix
  Dc_old_' :: matrix
  Do_old_' :: matrix
  Gc_' :: matrix
  Go_' :: matrix
  epsilon_' :: vector
  doccpi_' :: "nat list"
  soccpi_' :: "nat list"
  pk_' :: "real list"
  k_' :: "real list"
  pk_pairs_' :: nat
  pk_size_' :: nat
  memory_' :: nat
  so2symblk_' :: "nat list"
  so2index_' :: "nat list"
  pk_symoffset_' :: "nat list"
  nuclearrep_' :: real
  E_' :: real
  Eold_' :: real
  scf_type_' :: string
  initialized_diis_manager_' :: bool
  diis_manager_' :: diis_manager
  so_tei :: "iwl_buffer list"

text \<open>
  The options that the constructor of \<^verbatim>\<open>HF\<close> reads once; no code of the file writes
  them.
\<close>

record hf_options =
  maxiter_' :: int
  energy_threshold_' :: real
  diis_enabled_' :: bool
  min_diis_vectors_' :: int
  max_diis_vectors_' :: int

text \<open>
  What the solver writes: the lines of \<^verbatim>\<open>outfile\<close> that \<^verbatim>\<open>compute_energy\<close> prints
  itself, the calls on the checkpoint object in their order, and the matrices saved
  to file 32. The tables that \<^verbatim>\<open>save_information\<close> and \<^verbatim>\<open>form_PK\<close> print to
  \<^verbatim>\<open>outfile\<close> and the debug output are left out.
\<close>

datatype out_line =
  Text string
  | Iteration int real real bool

fun is_Iteration :: "out_line \<Rightarrow> bool" where
  "is_Iteration (Iteration iter E dE diis_iter) = True"
| "is_Iteration (Text s) = False"

datatype chkpt_write =
  Wt_nirreps nat
  | Wt_irr_labs "string list"
  | Wt_nso nat
  | Wt_nmo nat
  | Wt_ref nat
  | Wt_etot real
  | Wt_escf real
  | Wt_eref real
  | Wt_clsdpi "nat list"
  | Wt_orbspi "nat list"
  | Wt_openpi "nat list"
  | Wt_phase_check nat
  | Wt_frzcpi "nat list"
  | Wt_frzvpi "nat list"
  | Wt_iopen nat
  | Wt_evals vector
  | Wt_scf matrix

record sinks =
  outfile :: "out_line list"
  chkpt :: "chkpt_write list"
  psio_32 :: "matrix list"

text \<open>
  The collaborators whose code is outside the files at hand are parameters: the members
  of the base class that \<^verbatim>\<open>compute_energy\<close> calls, the diagonalisation of a matrix, the
  occupation selector, the extrapolation of the DIIS manager, and the values that
  \<^verbatim>\<open>save_information\<close> asks the molecule, the basis set and the options for.
\<close>

record hf_collab =
  ext_form_H :: "rohf \<Rightarrow> rohf"
  ext_form_Shalf :: "rohf \<Rightarrow> rohf"
  ext_load_or_compute_initial_C :: "rohf \<Rightarrow> bool \<times> rohf"
  ext_form_G_from_RI :: "rohf \<Rightarrow> rohf"
  ext_diagonalize :: "nat \<Rightarrow> nat list \<Rightarrow> matrix \<Rightarrow> matrix \<times> vector"
  ext_find_occupation :: "vector \<Rightarrow> nat list \<times> nat list"
  ext_extrapolate :: "diis_manager \<Rightarrow> matrix \<Rightarrow> bool \<times> matrix"
  ext_irrep_labels :: "string list"
  ext_nbf :: nat
  ext_nfrozen_core :: int
  ext_freeze_virt :: int
  ext_compute_fcpi :: "int \<Rightarrow> vector \<Rightarrow> nat list"
  ext_compute_fvpi :: "int \<Rightarrow> vector \<Rightarrow> nat list"

text \<open>The two ways a run ends without returning: \<^verbatim>\<open>abort()\<close>, and a read past the
  last buffer of the integral file.\<close>

datatype error =
  Abort string
  | Read_past_end

section \<open>The density builder\<close>

text \<open>
  \<^verbatim>\<open>ROHF::form_D\<close>: for every irrep and every element of the block the two sums over the
  occupied columns are accumulated in \<open>val\<close> and stored. The four nested \<^verbatim>\<open>for\<close> statements
  are four folds.
\<close>

definition form_D_element :: "nat \<Rightarrow> nat \<Rightarrow> nat \<Rightarrow> rohf \<Rightarrow> rohf" where
  "form_D_element h i j st =
     (let val = fold (\<lambda>m val. val + mat_get (C_' st) h i m * mat_get (C_' st) h j m)
                  [0..<doccpi_' st ! h] 0;
          st = st\<lparr>Dc_' := mat_set (Dc_' st) h i j val\<rparr>;
          val = fold (\<lambda>m val. val + mat_get (C_' st) h i m * mat_get (C_' st) h j m)
                  [doccpi_' st ! h..<doccpi_' st ! h + soccpi_' st ! h] 0
      in st\<lparr>Do_' := mat_set (Do_' st) h i j val\<rparr>)"

definition form_D :: "rohf \<Rightarrow> rohf" where
  "form_D st =
     fold (\<lambda>h. fold (\<lambda>i. fold (\<lambda>j. form_D_element h i j) [0..<opi st ! h]) [0..<opi st ! h])
       [0..<nirreps st] st"

section \<open>The effective Fock matrix\<close>

text \<open>
  \<^verbatim>\<open>ROHF::form_F\<close>. The body of the loop over the open rows \<open>i\<close> of irrep \<open>h\<close> has
  three passes over \<open>j\<close>: the closed columns, the virtual columns and the open columns,
  in this order; each stores \<open>val\<close> at \<open>(i, j)\<close> and at \<open>(j, i)\<close>.
\<close>

definition form_F_open_row :: "matrix \<Rightarrow> matrix \<Rightarrow> nat \<Rightarrow> nat \<Rightarrow> rohf \<Rightarrow> rohf" where
  "form_F_open_row Fct Fot h i st =
     (let st = fold (\<lambda>j st.
                  let val = 2.0 * (mat_get Fct h i j - mat_get Fot h i j);
                      st = st\<lparr>Feff_' := mat_set (Feff_' st) h i j val\<rparr>
                  in st\<lparr>Feff_' := mat_set (Feff_' st) h j i val\<rparr>)
                [0..<doccpi_' st ! h] st;
          st = fold (\<lambda>j st.
                  let val = 2.0 * mat_get Fot h i j;
                      st = st\<lparr>Feff_' := mat_set (Feff_' st) h i j val\<rparr>
                  in st\<lparr>Feff_' := mat_set (Feff_' st) h j i val\<rparr>)
                [doccpi_' st ! h + soccpi_' st ! h..<opi st ! h] st
      in fold (\<lambda>j st.
                  let val = mat_get Fot h i j;
                      st = st\<lparr>Feff_' := mat_set (Feff_' st) h i j val\<rparr>
                  in st\<lparr>Feff_' := mat_set (Feff_' st) h j i val\<rparr>)
                [doccpi_' st ! h..<doccpi_' st ! h + soccpi_' st ! h] st)"

definition form_F :: "rohf \<Rightarrow> rohf" where
  "form_F st =
     (let st = st\<lparr>Fc_' := H_' st\<rparr>;
          st = st\<lparr>Fc_' := mat_add (Fc_' st) (Gc_' st)\<rparr>;
          st = st\<lparr>Fo_' := H_' st\<rparr>;
          st = st\<lparr>Fo_' := mat_scale (Fo_' st) 0.5\<rparr>;
          st = st\<lparr>Fo_' := mat_add (Fo_' st) (Go_' st)\<rparr>;
          Fct = mat_transform (opi st) (Fc_' st) (C_' st);
          Fot = mat_transform (opi st) (Fo_' st) (C_' st);
          st = st\<lparr>Feff_' := Fct\<rparr>
      in fold (\<lambda>h st. fold (form_F_open_row Fct Fot h)
                          [doccpi_' st ! h..<doccpi_' st ! h + soccpi_' st ! h] st)
           [0..<nirreps st] st)"

section \<open>The PK and K supermatrices\<close>

text \<open>
  Modelled from the spec: the macro \<^verbatim>\<open>INDEX2\<close> (declared in a header that is not under
  src/), the compound index of a pair in a lower triangle stored row by row. It is the
  layout that \<^verbatim>\<open>form_G_from_PK\<close> walks through with its pointers.
\<close>

definition INDEX2 :: "nat \<Rightarrow> nat \<Rightarrow> nat" where
  "INDEX2 i j = (if i \<ge> j then i * (i + 1) div 2 + j else j * (j + 1) div 2 + i)"

text \<open>
  \<^verbatim>\<open>ROHF::allocate_PK\<close>, with \<^verbatim>\<open>sizeof(double)\<close> = 8. The branch for a null result of
  \<^verbatim>\<open>new\<close> is kept out: \<^verbatim>\<open>new\<close> does not return null.
\<close>

definition allocate_PK :: "rohf \<Rightarrow> rohf" where
  "allocate_PK st =
     (if pk_size_' st < memory_' st div 8 div 2
      then st\<lparr>pk_' := replicate (pk_size_' st) 0, k_' := replicate (pk_size_' st) 0\<rparr>
      else st\<lparr>scf_type_' := ''OUT_OF_CORE''\<rparr>)"

text \<open>
  The body of the loop of \<^verbatim>\<open>ROHF::form_PK\<close> over the integrals of a buffer, for the
  labels \<open>i\<close>, \<open>j\<close>, \<open>k\<close>, \<open>l\<close> and the value of one integral. After the lookup of the
  irreps and of the offsets inside them it has two statements: the block under the
  comment \<^verbatim>\<open>// J\<close>, with the Coulomb pairing and, inside it, the second exchange sort,
  and the block under \<^verbatim>\<open>// K/2 (1st sort)\<close>.
\<close>

definition form_PK_J ::
  "nat \<Rightarrow> nat \<Rightarrow> nat \<Rightarrow> nat \<Rightarrow> nat \<Rightarrow> nat \<Rightarrow> nat \<Rightarrow> nat \<Rightarrow> real \<Rightarrow> rohf \<Rightarrow> rohf" where
  "form_PK_J is js ks ls ii jj kk ll val st =
     (if is = js \<and> ks = ls then
        let bra = INDEX2 ii jj; ket = INDEX2 kk ll;
            braket = INDEX2 (bra + pk_symoffset_' st ! is) (ket + pk_symoffset_' st ! ks);
            st = st\<lparr>pk_' := (pk_' st)[braket := pk_' st ! braket + val]\<rparr>
        in if ii \<noteq> jj \<and> kk \<noteq> ll then
             if is = ls \<and> js = ks then
               let bra = INDEX2 ii ll; ket = INDEX2 jj kk;
                   braket = INDEX2 (bra + pk_symoffset_' st ! is) (ket + pk_symoffset_' st ! js)
               in if ii = ll \<or> jj = kk then
                    let st = st\<lparr>pk_' := (pk_' st)[braket := pk_' st ! braket - 0.5 * val]\<rparr>
                    in st\<lparr>k_' := (k_' st)[braket := k_' st ! braket - 0.5 * val]\<rparr>
                  else
                    let st = st\<lparr>pk_' := (pk_' st)[braket := pk_' st ! braket - 0.25 * val]\<rparr>
                    in st\<lparr>k_' := (k_' st)[braket := k_' st ! braket - 0.25 * val]\<rparr>
             else st
           else st
      else st)"

definition form_PK_K ::
  "nat \<Rightarrow> nat \<Rightarrow> nat \<Rightarrow> nat \<Rightarrow> nat \<Rightarrow> nat \<Rightarrow> nat \<Rightarrow> nat \<Rightarrow> real \<Rightarrow> rohf \<Rightarrow> rohf" where
  "form_PK_K is js ks ls ii jj kk ll val st =
     (if is = ks \<and> js = ls then
        let bra = INDEX2 ii kk; ket = INDEX2 jj ll;
            braket = INDEX2 (bra + pk_symoffset_' st ! is) (ket + pk_symoffset_' st ! js)
        in if ii = kk \<or> jj = ll then
             let st = st\<lparr>pk_' := (pk_' st)[braket := pk_' st ! braket - 0.5 * val]\<rparr>
             in st\<lparr>k_' := (k_' st)[braket := k_' st ! braket - 0.5 * val]\<rparr>
           else
             let st = st\<lparr>pk_' := (pk_' st)[braket := pk_' st ! braket - 0.25 * val]\<rparr>
             in st\<lparr>k_' := (k_' st)[braket := k_' st ! braket - 0.25 * val]\<rparr>
      else st)"

definition form_PK_integral :: "nat \<Rightarrow> nat \<Rightarrow> nat \<Rightarrow> nat \<Rightarrow> real \<Rightarrow> rohf \<Rightarrow> rohf" where
  "form_PK_integral i j k l val st =
     (let is = so2symblk_' st ! i; js = so2symblk_' st ! j;
          ks = so2symblk_' st ! k; ls = so2symblk_' st ! l;
          ii = so2index_' st ! i; jj = so2index_' st ! j;
          kk = so2index_' st ! k; ll = so2index_' st ! l;
          st = form_PK_J is js ks ls ii jj kk ll val st
      in form_PK_K is js ks ls ii jj kk ll val st)"

text \<open>
  The loop over one buffer: \<open>fi\<close> walks through the labels in steps of four, the first
  label is read by its absolute value. A label is an index into the tables of the
  solver; a negative second, third or fourth label has no meaning in the source.
\<close>

definition form_PK_buffer :: "iwl_buffer \<Rightarrow> rohf \<Rightarrow> rohf" where
  "form_PK_buffer b st =
     snd (fold (\<lambda>idx (fi, st).
            let i = (if labels b ! fi > 0 then labels b ! fi else - (labels b ! fi));
                j = labels b ! (fi + 1);
                k = labels b ! (fi + 2);
                l = labels b ! (fi + 3);
                val = buf_values b ! idx
            in (fi + 4, form_PK_integral (nat i) (nat j) (nat k) (nat l) val st))
          [0..<buffer_count b] (0, st))"

text \<open>
  The loop over the buffers of the file. The constructor of \<^verbatim>\<open>IWL\<close> has read the first
  buffer; after a buffer that is not the last one the next is fetched.
\<close>

fun form_PK_read :: "iwl_buffer list \<Rightarrow> rohf \<Rightarrow> error + rohf" where
  "form_PK_read [] st = Inl Read_past_end"
| "form_PK_read (b # bs) st =
     (let st = form_PK_buffer b st
      in if last_buffer b then Inr st else form_PK_read bs st)"

text \<open>The last pass of \<^verbatim>\<open>ROHF::form_PK\<close>, over the pairs.\<close>

definition form_PK_halve :: "rohf \<Rightarrow> rohf" where
  "form_PK_halve st =
     fold (\<lambda>ij st.
        let st = st\<lparr>pk_' := (pk_' st)[INDEX2 ij ij := pk_' st ! INDEX2 ij ij * 0.5]\<rparr>
        in st\<lparr>k_' := (k_' st)[INDEX2 ij ij := k_' st ! INDEX2 ij ij * 0.5]\<rparr>)
       [0..<pk_pairs_' st] st"

definition form_PK :: "rohf \<Rightarrow> error + rohf" where
  "form_PK st =
     (case form_PK_read (so_tei st) st of
        Inl e \<Rightarrow> Inl e
      | Inr st \<Rightarrow> Inr (form_PK_halve st))"

section \<open>The contraction of the densities with PK and K\<close>

text \<open>
  \<^verbatim>\<open>ROHF::form_G_from_PK\<close>, first part: the densities are packed into two vectors of
  \<open>pk_pairs_\<close> numbers, walking through the lower triangle of every block with the
  counter \<open>ij\<close>.
\<close>

definition form_G_pack :: "rohf \<Rightarrow> nat \<times> real list \<times> real list" where
  "form_G_pack st =
     fold (\<lambda>h. fold (\<lambda>p. fold (\<lambda>q (ij, Dc_vector, Do_vector).
        if p \<noteq> q
        then (ij + 1, Dc_vector[ij := 2.0 * mat_get (Dc_' st) h p q],
                      Do_vector[ij := 2.0 * mat_get (Do_' st) h p q])
        else (ij + 1, Dc_vector[ij := mat_get (Dc_' st) h p q],
                      Do_vector[ij := mat_get (Do_' st) h p q]))
        [0..<Suc p]) [0..<opi st ! h]) [0..<nirreps st]
       (0, replicate (pk_pairs_' st) 0, replicate (pk_pairs_' st) 0)"

text \<open>
  Second part: the sweep over the pairs \<open>pq\<close> and \<open>rs \<le> pq\<close>. The pointers \<^verbatim>\<open>Dc_rs\<close>,
  \<^verbatim>\<open>Gc_rs\<close>, \<^verbatim>\<open>Do_rs\<close> and \<^verbatim>\<open>Go_rs\<close> start at element 0 of their vectors for every \<open>pq\<close>
  and advance with \<open>rs\<close>, so they are the index \<open>rs\<close>; \<^verbatim>\<open>PK_block\<close> and \<^verbatim>\<open>K_block\<close>
  start at element 0 of \<open>pk_\<close> and \<open>k_\<close> and advance by one in every step of the inner
  loop, so they are one offset \<open>blk\<close> that is carried through the inner and the outer loop.
\<close>

definition form_G_inner ::
  "real list \<Rightarrow> real list \<Rightarrow> real list \<Rightarrow> real list \<Rightarrow> real \<Rightarrow> real \<Rightarrow> nat \<Rightarrow>
   real \<times> real \<times> real list \<times> real list \<times> nat \<Rightarrow> real \<times> real \<times> real list \<times> real list \<times> nat" where
  "form_G_inner pk k Dc_vector Do_vector Dc_pq Do_pq rs =
     (\<lambda>(Gc_pq, Go_pq, Gc_vector, Go_vector, blk).
        let Gc_pq = Gc_pq + pk ! blk * Dc_vector ! rs;
            Gc_vector = Gc_vector[rs := Gc_vector ! rs + pk ! blk * Dc_pq];
            Gc_pq = Gc_pq + pk ! blk * Do_vector ! rs * 0.5;
            Gc_vector = Gc_vector[rs := Gc_vector ! rs + pk ! blk * Do_pq * 0.5];
            Go_pq = Go_pq + pk ! blk * Dc_vector ! rs * 0.5;
            Go_vector = Go_vector[rs := Go_vector ! rs + pk ! blk * Dc_pq * 0.5];
            Go_pq = Go_pq + (pk ! blk + k ! blk) * Do_vector ! rs * 0.25;
            Go_vector = Go_vector[rs := Go_vector ! rs + (pk ! blk + k ! blk) * Do_pq * 0.25]
        in (Gc_pq, Go_pq, Gc_vector, Go_vector, blk + 1))"

definition form_G_outer ::
  "real list \<Rightarrow> real list \<Rightarrow> real list \<Rightarrow> real list \<Rightarrow> nat \<Rightarrow>
   real list \<times> real list \<times> nat \<Rightarrow> real list \<times> real list \<times> nat" where
  "form_G_outer pk k Dc_vector Do_vector pq =
     (\<lambda>(Gc_vector, Go_vector, blk).
        let Dc_pq = Dc_vector ! pq;
            Do_pq = Do_vector ! pq;
            (Gc_pq, Go_pq, Gc_vector, Go_vector, blk) =
               fold (form_G_inner pk k Dc_vector Do_vector Dc_pq Do_pq) [0..<Suc pq]
                 (0, 0, Gc_vector, Go_vector, blk);
            Gc_vector = Gc_vector[pq := Gc_vector ! pq + Gc_pq];
            Go_vector = Go_vector[pq := Go_vector ! pq + Go_pq]
        in (Gc_vector, Go_vector, blk))"

definition form_G_sweep :: "rohf \<Rightarrow> real list \<Rightarrow> real list \<Rightarrow> real list \<times> real list \<times> nat" where
  "form_G_sweep st Dc_vector Do_vector =
     fold (form_G_outer (pk_' st) (k_' st) Dc_vector Do_vector) [0..<pk_pairs_' st]
       (replicate (pk_pairs_' st) 0, replicate (pk_pairs_' st) 0, 0)"

text \<open>Third part: the vectors are written back into the blocks of \<open>Gc_\<close> and \<open>Go_\<close>.\<close>

definition form_G_unpack :: "real list \<Rightarrow> real list \<Rightarrow> rohf \<Rightarrow> nat \<times> rohf" where
  "form_G_unpack Gc_vector Go_vector st =
     fold (\<lambda>h. fold (\<lambda>p. fold (\<lambda>q (ij, st).
        let st = st\<lparr>Gc_' := mat_set (Gc_' st) h p q (2.0 * Gc_vector ! ij)\<rparr>;
            st = st\<lparr>Gc_' := mat_set (Gc_' st) h q p (2.0 * Gc_vector ! ij)\<rparr>;
            st = st\<lparr>Go_' := mat_set (Go_' st) h p q (2.0 * Go_vector ! ij)\<rparr>;
            st = st\<lparr>Go_' := mat_set (Go_' st) h q p (2.0 * Go_vector ! ij)\<rparr>
        in (ij + 1, st))
        [0..<Suc p]) [0..<opi st ! h]) [0..<nirreps st] (0, st)"

definition form_G_from_PK :: "rohf \<Rightarrow> rohf" where
  "form_G_from_PK st =
     (let st = st\<lparr>Gc_' := mat_zero\<rparr>;
          st = st\<lparr>Go_' := mat_zero\<rparr>;
          (ij, Dc_vector, Do_vector) = form_G_pack st;
          (Gc_vector, Go_vector, blk) = form_G_sweep st Dc_vector Do_vector
      in snd (form_G_unpack Gc_vector Go_vector st))"

text \<open>The two strategies that are not implemented end the process.\<close>

definition form_G :: "rohf \<Rightarrow> error + rohf" where
  "form_G st = Inl (Abort ''ROHF out-of-core algorithm is not implemented yet!'')"

definition form_G_from_direct_integrals :: "rohf \<Rightarrow> error + rohf" where
  "form_G_from_direct_integrals st =
     Inl (Abort ''ROHF integral direct algorithm is not implemented yet!'')"

section \<open>Energy, orbitals, DIIS and the convergence test\<close>

definition compute_E :: "rohf \<Rightarrow> real" where
  "compute_E st =
     (let HFc = H_' st;
          HFc = mat_add HFc (Fc_' st);
          HFo = H_' st;
          HFo = mat_scale HFo 0.5;
          HFo = mat_add HFo (Fo_' st);
          Etotal = nuclearrep_' st + vector_dot (nirreps st) (opi st) (Dc_' st) HFc
                     + vector_dot (nirreps st) (opi st) (Do_' st) HFo
      in Etotal)"

definition form_C :: "hf_collab \<Rightarrow> rohf \<Rightarrow> rohf" where
  "form_C ext st =
     (let (eigvec, eigval) = ext_diagonalize ext (nirreps st) (opi st) (Feff_' st);
          st = st\<lparr>epsilon_' := eigval\<rparr>;
          (docc, socc) = ext_find_occupation ext (epsilon_' st);
          st = st\<lparr>doccpi_' := docc, soccpi_' := socc\<rparr>;
          temp = mat_gemm (opi st) (C_' st) eigvec
      in st\<lparr>C_' := temp\<rparr>)"

text \<open>
  \<^verbatim>\<open>ROHF::save_fock\<close>: the manager is created on the first call, with the capacity
  \<open>max_diis_vectors_\<close> and an empty history. The source has no further statement;
  the lines that stored a matrix are commented out.
\<close>

definition save_fock :: "hf_options \<Rightarrow> rohf \<Rightarrow> rohf" where
  "save_fock opts st =
     (if initialized_diis_manager_' st = False
      then st\<lparr>diis_manager_' := \<lparr>diis_capacity = max_diis_vectors_' opts, diis_history = []\<rparr>,
              initialized_diis_manager_' := True\<rparr>
      else st)"

definition diis :: "hf_collab \<Rightarrow> rohf \<Rightarrow> bool \<times> rohf" where
  "diis ext st =
     (let (ok, F) = ext_extrapolate ext (diis_manager_' st) (Feff_' st)
      in (ok, st\<lparr>Feff_' := F\<rparr>))"

definition test_convergency :: "hf_options \<Rightarrow> rohf \<Rightarrow> bool" where
  "test_convergency opts st =
     (let ediff = E_' st - Eold_' st
      in if \<bar>ediff\<bar> < energy_threshold_' opts then True else False)"

section \<open>The driver\<close>

text \<open>
  \<^verbatim>\<open>ROHF::save_information\<close>: the calls on the checkpoint object, in their order, and
  the effective Fock matrix saved to file 32.
\<close>

definition save_information :: "hf_collab \<Rightarrow> rohf \<Rightarrow> sinks \<Rightarrow> sinks" where
  "save_information ext st io =
     (let io = io\<lparr>chkpt := chkpt io @ [Wt_nirreps (nirreps st), Wt_irr_labs (ext_irrep_labels ext)]\<rparr>;
          nso = ext_nbf ext;
          io = io\<lparr>chkpt := chkpt io @
                 [Wt_nso nso, Wt_nmo nso, Wt_ref 2, Wt_etot (E_' st), Wt_escf (E_' st),
                  Wt_eref (E_' st), Wt_clsdpi (doccpi_' st), Wt_orbspi (opi st),
                  Wt_openpi (soccpi_' st), Wt_phase_check 0]\<rparr>;
          io = io\<lparr>psio_32 := psio_32 io @ [Feff_' st]\<rparr>;
          frzcpi = ext_compute_fcpi ext (ext_nfrozen_core ext) (epsilon_' st);
          frzvpi = ext_compute_fvpi ext (ext_freeze_virt ext) (epsilon_' st);
          io = io\<lparr>chkpt := chkpt io @ [Wt_frzcpi frzcpi, Wt_frzvpi frzvpi]\<rparr>;
          nopenirreps = fold (\<lambda>i n. if soccpi_' st ! i \<noteq> 0 then n + 1 else n) [0..<nirreps st] 0;
          io = io\<lparr>chkpt := chkpt io @ [Wt_iopen (nopenirreps * (nopenirreps + 1))]\<rparr>
      in io\<lparr>chkpt := chkpt io @ [Wt_evals (epsilon_' st), Wt_scf (C_' st)]\<rparr>)"

text \<open>
  The body of the loop of \<^verbatim>\<open>ROHF::compute_energy\<close>, for the value of \<open>iter\<close> after its
  increment.
\<close>

definition scf_iteration ::
  "hf_collab \<Rightarrow> hf_options \<Rightarrow> int \<Rightarrow> rohf \<times> sinks \<Rightarrow> error + rohf \<times> sinks" where
  "scf_iteration ext opts iter = (\<lambda>(st, io).
     let st = st\<lparr>Dc_old_' := Dc_' st\<rparr>;
         st = st\<lparr>Do_old_' := Do_' st\<rparr>;
         st = st\<lparr>Eold_' := E_' st\<rparr>
     in case (if scf_type_' st = ''PK'' then Inr (form_G_from_PK st)
              else if scf_type_' st = ''DIRECT'' then form_G_from_direct_integrals st
              else if scf_type_' st = ''DF'' \<or> scf_type_' st = ''CD'' \<or> scf_type_' st = ''1C_CD''
                then Inr (ext_form_G_from_RI ext st)
              else if scf_type_' st = ''OUT_OF_CORE'' then form_G st
              else Inr st) of
          Inl e \<Rightarrow> Inl e
        | Inr st \<Rightarrow>
            let st = form_F st;
                st = (if diis_enabled_' opts then save_fock opts st else st);
                st = st\<lparr>E_' := compute_E st\<rparr>;
                (diis_iter, st) =
                   (if diis_enabled_' opts = True \<and> iter \<ge> min_diis_vectors_' opts \<and> iter mod 6 = 0
                    then (True, snd (diis ext st))
                    else (False, st));
                io = io\<lparr>outfile := outfile io @ [Iteration iter (E_' st) (E_' st - Eold_' st) diis_iter]\<rparr>;
                st = form_C ext st;
                st = form_D st
            in Inr (st, io))"

text \<open>
  The loop itself: \<^verbatim>\<open>do { iter++; ... } while (!converged && iter < maxiter_)\<close>. It
  returns the values of \<open>converged\<close> and \<open>iter\<close> at its end.
\<close>

function scf_iterations ::
  "hf_collab \<Rightarrow> hf_options \<Rightarrow> int \<Rightarrow> rohf \<times> sinks \<Rightarrow> error + bool \<times> int \<times> rohf \<times> sinks" where
  "scf_iterations ext opts iter sw =
     (case scf_iteration ext opts (iter + 1) sw of
        Inl e \<Rightarrow> Inl e
      | Inr (st, io) \<Rightarrow>
          if \<not> test_convergency opts st \<and> iter + 1 < maxiter_' opts
          then scf_iterations ext opts (iter + 1) (st, io)
          else Inr (test_convergency opts st, iter + 1, st, io))"
  by pat_completeness auto
termination
  by (relation "measure (\<lambda>(ext, opts, iter, sw). nat (maxiter_' opts - iter))") auto

text \<open>
  \<^verbatim>\<open>form_B\<close> and \<^verbatim>\<open>free_B\<close> build and release the three-index tensors of density
  fitting. Density fitting is outside the specification and these tensors are not among
  the members above, so the two calls leave the modelled members as they are.
\<close>

definition form_B :: "rohf \<Rightarrow> rohf" where
  "form_B st = st"

definition free_B :: "rohf \<Rightarrow> rohf" where
  "free_B st = st"

text \<open>
  The work before the loop: the core Hamiltonian, the supermatrices, the
  orthogonaliser and the first orbitals.
\<close>

definition compute_energy_init :: "hf_collab \<Rightarrow> rohf \<Rightarrow> error + bool \<times> rohf" where
  "compute_energy_init ext st =
     (let st = ext_form_H ext st
      in case (if scf_type_' st = ''PK'' then form_PK st
               else if scf_type_' st = ''DF'' then Inr (form_B st)
               else Inr st) of
           Inl e \<Rightarrow> Inl e
         | Inr st \<Rightarrow>
             (case (if scf_type_' st = ''PK'' then form_PK st else Inr st) of
                Inl e \<Rightarrow> Inl e
              | Inr st \<Rightarrow>
                  let st = ext_form_Shalf ext st
                  in Inr (ext_load_or_compute_initial_C ext st)))"

text \<open>
  What a run that returns leaves behind: the number returned, the values of the local
  variables \<open>converged\<close> and \<open>iter\<close> at the return, the members and the output.
\<close>

record scf_result =
  ret_energy :: real
  ret_converged :: bool
  ret_iter :: int
  ret_state :: rohf
  ret_sinks :: sinks

definition compute_energy :: "hf_collab \<Rightarrow> hf_options \<Rightarrow> rohf \<times> sinks \<Rightarrow> error + scf_result" where
  "compute_energy ext opts = (\<lambda>(st, io).
     case compute_energy_init ext st of
       Inl e \<Rightarrow> Inl e
     | Inr (read, st) \<Rightarrow>
         let io = (if read
                   then io\<lparr>outfile := outfile io @ [Text ''  Read in previous MOs from file32.'']\<rparr>
                   else io);
             io = io\<lparr>outfile := outfile io @
                    [Text ''                                  Total Energy            Delta E              Density RMS'']\<rparr>
         in case scf_iterations ext opts 0 (st, io) of
              Inl e \<Rightarrow> Inl e
            | Inr (converged, iter, st, io) \<Rightarrow>
                let st = (if scf_type_' st = ''DF'' \<or> scf_type_' st = ''CD'' \<or> scf_type_' st = ''1C_CD''
                          then free_B st else st)
                in if converged
                   then let io = io\<lparr>outfile := outfile io @ [Text ''  Energy converged.'']\<rparr>;
                            io = save_information ext st io
                        in Inr \<lparr>ret_energy = E_' st, ret_converged = converged, ret_iter = iter,
                                ret_state = st, ret_sinks = io\<rparr>
                   else let io = io\<lparr>outfile := outfile io @ [Text ''  Failed to converge.'']\<rparr>
                        in Inr \<lparr>ret_energy = 0.0, ret_converged = converged, ret_iter = iter,
                                ret_state = st, ret_sinks = io\<rparr>)"

section \<open>Closed forms used in the statements\<close>

text \<open>The two sums of the density builder, for the coefficients and occupations of a state.\<close>

definition Dc_sum :: "rohf \<Rightarrow> nat \<Rightarrow> nat \<Rightarrow> nat \<Rightarrow> real" where
  "Dc_sum st h p q = (\<Sum>m<doccpi_' st ! h. C_' st h p m * C_' st h q m)"

definition Do_sum :: "rohf \<Rightarrow> nat \<Rightarrow> nat \<Rightarrow> nat \<Rightarrow> real" where
  "Do_sum st h p q =
     (\<Sum>m = doccpi_' st ! h..<doccpi_' st ! h + soccpi_' st ! h. C_' st h p m * C_' st h q m)"

text \<open>The start of row \<open>a\<close> in a lower triangle stored row by row.\<close>

definition tri :: "nat \<Rightarrow> nat" where
  "tri a = a * (a + 1) div 2"

text \<open>A list whose entries at the diagonal indices of the first \<open>n\<close> pairs are halved.\<close>

definition halved :: "nat \<Rightarrow> real list \<Rightarrow> real list" where
  "halved n xs =
     map (\<lambda>m. if m \<in> (\<lambda>ij. INDEX2 ij ij) ` {..<n} then xs ! m * 0.5 else xs ! m)
       [0..<length xs]"

text \<open>
  The scale of an exchange contribution in the words of the specification: 0.5 when
  one of the two index pairs of the integral is diagonal, \<open>i = j\<close> or \<open>k = l\<close>, and 0.25
  otherwise.
\<close>

definition spec_exchange_scale :: "nat \<Rightarrow> nat \<Rightarrow> nat \<Rightarrow> nat \<Rightarrow> real" where
  "spec_exchange_scale i j k l = (if i = j \<or> k = l then 0.5 else 0.25)"

section \<open>A small solver\<close>

text \<open>
  One irrep with two orbitals, the first doubly and the second singly occupied; three
  pairs, hence six entries in each supermatrix; one buffer with the integral (00|00) = 1.
\<close>

definition unit_matrix :: matrix where
  "unit_matrix = (\<lambda>h i j. if i = j then 1 else 0)"

definition example_rohf :: rohf where
  "example_rohf =
     \<lparr>nirreps = 1, opi = [2], H_' = unit_matrix, Shalf_' = unit_matrix,
      Fc_' = mat_zero, Fo_' = mat_zero, Feff_' = mat_zero, C_' = unit_matrix,
      Dc_' = mat_zero, Do_' = mat_zero, Dc_old_' = mat_zero, Do_old_' = mat_zero,
      Gc_' = mat_zero, Go_' = mat_zero, epsilon_' = (\<lambda>h i. 0),
      doccpi_' = [1], soccpi_' = [1],
      pk_' = [0, 0, 0, 0, 0, 0], k_' = [0, 0, 0, 0, 0, 0], pk_pairs_' = 3, pk_size_' = 6,
      memory_' = 1024, so2symblk_' = [0, 0], so2index_' = [0, 1], pk_symoffset_' = [0],
      nuclearrep_' = 0, E_' = 0, Eold_' = 0, scf_type_' = ''PK'',
      initialized_diis_manager_' = False,
      diis_manager_' = \<lparr>diis_capacity = 0, diis_history = []\<rparr>,
      so_tei = [\<lparr>labels = [0, 0, 0, 0], buf_values = [1], buffer_count = 1, last_buffer = True\<rparr>]\<rparr>"

text \<open>Collaborators for the small solver: nothing is read or built outside it, the
  diagonalisation returns the unit vectors and the diagonal, the occupation stays.\<close>

definition example_collab :: hf_collab where
  "example_collab =
     \<lparr>ext_form_H = (\<lambda>st. st),
      ext_form_Shalf = (\<lambda>st. st), ext_load_or_compute_initial_C = (\<lambda>st. (False, st)),
      ext_form_G_from_RI = (\<lambda>st. st),
      ext_diagonalize = (\<lambda>n dims F. (unit_matrix, \<lambda>h i. F h i i)),
      ext_find_occupation = (\<lambda>eps. ([1], [1])),
      ext_extrapolate = (\<lambda>m F. (False, F)),
      ext_irrep_labels = [''A''], ext_nbf = 2, ext_nfrozen_core = 0, ext_freeze_virt = 0,
      ext_compute_fcpi = (\<lambda>n eps. [0]), ext_compute_fvpi = (\<lambda>n eps. [0])\<rparr>"

definition example_options :: hf_options where
  "example_options =
     \<lparr>maxiter_' = 3, energy_threshold_' = 0, diis_enabled_' = True,
      min_diis_vectors_' = 2, max_diis_vectors_' = 4\<rparr>"

definition example_sinks :: sinks where
  "example_sinks = \<lparr>outfile = [], chkpt = [], psio_32 = []\<rparr>"

text \<open>The small solver with supermatrices that are not zero.\<close>

definition filled_rohf :: rohf where
  "filled_rohf = example_rohf\<lparr>pk_' := [1, 2, 3, 4, 5, 6], k_' := [6, 5, 4, 3, 2, 1]\<rparr>"

section \<open>Relations between states used in the proofs\<close>

text \<open>Two states that differ in the effective Fock matrix at most.\<close>

definition only_Feff :: "rohf \<Rightarrow> rohf \<Rightarrow> bool" where
  "only_Feff s s' \<longleftrightarrow> (\<exists>F. s' = s\<lparr>Feff_' := F\<rparr>)"

text \<open>Two states that differ in the two G matrices at most.\<close>

definition only_G :: "rohf \<Rightarrow> rohf \<Rightarrow> bool" where
  "only_G s s' \<longleftrightarrow> (\<exists>A B. s' = s\<lparr>Gc_' := A, Go_' := B\<rparr>)"

text \<open>The members that no step of the loop writes: the strategy, the supermatrices,
  the integral file, the dimensions and the core Hamiltonian.\<close>

definition loop_frame :: "rohf \<Rightarrow> rohf \<Rightarrow> bool" where
  "loop_frame s s' \<longleftrightarrow>
     scf_type_' s' = scf_type_' s \<and> pk_' s' = pk_' s \<and> k_' s' = k_' s
     \<and> pk_pairs_' s' = pk_pairs_' s \<and> so_tei s' = so_tei s
     \<and> nirreps s' = nirreps s \<and> opi s' = opi s \<and> H_' s' = H_' s"

text \<open>Two states with the same DIIS manager.\<close>

definition diis_same :: "rohf \<Rightarrow> rohf \<Rightarrow> bool" where
  "diis_same s s' \<longleftrightarrow>
     diis_manager_' s' = diis_manager_' s
     \<and> initialized_diis_manager_' s' = initialized_diis_manager_' s"

text \<open>The output after the lines that \<^verbatim>\<open>compute_energy\<close> prints before its loop.\<close>

definition header_sinks :: "bool \<Rightarrow> sinks \<Rightarrow> sinks" where
  "header_sinks read io =
     (let io = (if read
                then io\<lparr>outfile := outfile io @ [Text ''  Read in previous MOs from file32.'']\<rparr>
                else io)
      in io\<lparr>outfile := outfile io @
           [Text ''                                  Total Energy            Delta E              Density RMS'']\<rparr>)"

text \<open>The small solver after the work before the loop.\<close>

definition built_twice :: rohf where
  "built_twice = example_rohf\<lparr>pk_' := [3 / 8, 0, 0, 0, 0, 0], k_' := [- 3 / 8, 0, 0, 0, 0, 0]\<rparr>"

section \<open>Closed forms of the contraction\<close>

text \<open>The pairs \<open>(h, p, q)\<close>, \<open>q \<le> p < d\<close>, of one block in the order of the iteration.\<close>

definition pair_block :: "nat \<Rightarrow> nat \<Rightarrow> (nat \<times> nat \<times> nat) list" where
  "pair_block h d = concat (map (\<lambda>p. map (\<lambda>q. (h, p, q)) [0..<Suc p]) [0..<d])"

text \<open>The pairs of all blocks in the order in which the counter \<open>ij\<close> meets them.\<close>

definition pair_list :: "nat \<Rightarrow> nat list \<Rightarrow> (nat \<times> nat \<times> nat) list" where
  "pair_list n dims = concat (map (\<lambda>h. pair_block h (dims ! h)) [0..<n])"

text \<open>The number of pairs in the blocks before block \<open>h\<close>.\<close>

definition pair_offset :: "nat list \<Rightarrow> nat \<Rightarrow> nat" where
  "pair_offset dims h = (\<Sum>g<h. tri (dims ! g))"

text \<open>The value of the counter \<open>ij\<close> at the pair \<open>(h, p, q)\<close>.\<close>

definition pair_index :: "nat list \<Rightarrow> nat \<Rightarrow> nat \<Rightarrow> nat \<Rightarrow> nat" where
  "pair_index dims h p q = pair_offset dims h + tri p + q"

text \<open>A list with the values of a run of pairs written at the positions from \<open>i0\<close> on.\<close>

definition write_run :: "('a \<Rightarrow> real) \<Rightarrow> 'a list \<Rightarrow> nat \<Rightarrow> real list \<Rightarrow> real list" where
  "write_run v ts i0 V =
     map (\<lambda>m. if i0 \<le> m \<and> m < i0 + length ts then v (ts ! (m - i0)) else V ! m) [0..<length V]"

text \<open>A list with \<open>u m\<close> added to its first \<open>n\<close> entries.\<close>

definition add_run :: "(nat \<Rightarrow> real) \<Rightarrow> nat \<Rightarrow> real list \<Rightarrow> real list" where
  "add_run u n G = map (\<lambda>m. G ! m + (if m < n then u m else 0)) [0..<length G]"

text \<open>
  An accumulator of the sweep after the rows below \<open>P\<close>: entry \<open>m\<close> holds the sum that
  row \<open>m\<close> has collected for itself and what the rows from \<open>m\<close> on have added to it.
\<close>

definition sweep_vec :: "(nat \<Rightarrow> nat \<Rightarrow> real) \<Rightarrow> (nat \<Rightarrow> nat \<Rightarrow> real) \<Rightarrow> nat \<Rightarrow> nat \<Rightarrow> real list" where
  "sweep_vec f g P N =
     map (\<lambda>m. (if m < P then \<Sum>rs<Suc m. f m rs else 0) + (\<Sum>pq = m..<P. g pq m)) [0..<N]"

text \<open>The body of the innermost loop that writes the vectors back.\<close>

definition unpack_step :: "real list \<Rightarrow> real list \<Rightarrow> nat \<times> nat \<times> nat \<Rightarrow> nat \<times> rohf \<Rightarrow> nat \<times> rohf" where
  "unpack_step Gc_vector Go_vector = (\<lambda>(h, p, q) (ij, st).
        let st = st\<lparr>Gc_' := mat_set (Gc_' st) h p q (2.0 * Gc_vector ! ij)\<rparr>;
            st = st\<lparr>Gc_' := mat_set (Gc_' st) h q p (2.0 * Gc_vector ! ij)\<rparr>;
            st = st\<lparr>Go_' := mat_set (Go_' st) h p q (2.0 * Go_vector ! ij)\<rparr>;
            st = st\<lparr>Go_' := mat_set (Go_' st) h q p (2.0 * Go_vector ! ij)\<rparr>
        in (ij + 1, st))"

text \<open>
  The packed densities: entry \<open>ij\<close> of the pair \<open>(h, p, q)\<close> is the density at
  \<open>(h, p, q)\<close>, doubled when \<open>p \<noteq> q\<close>; entries beyond the pairs are zero.
\<close>

definition Dc_packed :: "rohf \<Rightarrow> real list" where
  "Dc_packed st =
     map (\<lambda>m. if m < length (pair_list (nirreps st) (opi st))
              then (case pair_list (nirreps st) (opi st) ! m of
                      (h, p, q) \<Rightarrow> if p \<noteq> q then 2 * Dc_' st h p q else Dc_' st h p q)
              else 0)
       [0..<pk_pairs_' st]"

definition Do_packed :: "rohf \<Rightarrow> real list" where
  "Do_packed st =
     map (\<lambda>m. if m < length (pair_list (nirreps st) (opi st))
              then (case pair_list (nirreps st) (opi st) ! m of
                      (h, p, q) \<Rightarrow> if p \<noteq> q then 2 * Do_' st h p q else Do_' st h p q)
              else 0)
       [0..<pk_pairs_' st]"

text \<open>
  The closed G vector at the pair \<open>n\<close>: PK times the packed closed density plus one half
  of PK times the packed open density, over the pairs \<open>rs \<le> n\<close> in row \<open>n\<close> of the
  supermatrix and over the pairs \<open>pq \<ge> n\<close> in column \<open>n\<close>.
\<close>

definition Gc_contracted :: "rohf \<Rightarrow> nat \<Rightarrow> real" where
  "Gc_contracted st n =
     (\<Sum>rs<Suc n. pk_' st ! INDEX2 n rs * Dc_packed st ! rs
                  + 0.5 * pk_' st ! INDEX2 n rs * Do_packed st ! rs)
   + (\<Sum>pq = n..<pk_pairs_' st. pk_' st ! INDEX2 pq n * Dc_packed st ! pq
                  + 0.5 * pk_' st ! INDEX2 pq n * Do_packed st ! pq)"

text \<open>
  The open G vector at the pair \<open>n\<close>: one half of PK times the packed closed density
  plus one quarter of PK + K times the packed open density, in both directions.
\<close>

definition Go_contracted :: "rohf \<Rightarrow> nat \<Rightarrow> real" where
  "Go_contracted st n =
     (\<Sum>rs<Suc n. 0.5 * pk_' st ! INDEX2 n rs * Dc_packed st ! rs
                  + 0.25 * (pk_' st ! INDEX2 n rs + k_' st ! INDEX2 n rs) * Do_packed st ! rs)
   + (\<Sum>pq = n..<pk_pairs_' st. 0.5 * pk_' st ! INDEX2 pq n * Dc_packed st ! pq
                  + 0.25 * (pk_' st ! INDEX2 pq n + k_' st ! INDEX2 pq n) * Do_packed st ! pq)"

text \<open>The small solver with densities and supermatrices that are not zero.\<close>

definition dense_rohf :: rohf where
  "dense_rohf = filled_rohf\<lparr>Dc_' := (\<lambda>h i j. 1), Do_' := (\<lambda>h i j. 2)\<rparr>"

section \<open>Closed forms of the effective Fock matrix\<close>

text \<open>
  A matrix after one loop of an open row \<open>i\<close>: for the columns \<open>j\<close> from \<open>lo\<close> up to \<open>hi\<close>
  the value \<open>v j\<close> stands at \<open>(i, j)\<close> and at \<open>(j, i)\<close>.
\<close>

definition sym_write :: "nat \<Rightarrow> nat \<Rightarrow> nat \<Rightarrow> nat \<Rightarrow> (nat \<Rightarrow> real) \<Rightarrow> matrix \<Rightarrow> matrix" where
  "sym_write h i lo hi v F = (\<lambda>h' a b.
     if h' = h \<and> a = i \<and> lo \<le> b \<and> b < hi then v b
     else if h' = h \<and> b = i \<and> lo \<le> a \<and> a < hi then v a
     else F h' a b)"

text \<open>
  Block \<open>h\<close> of the effective Fock matrix after the open rows below \<open>r\<close>, for \<open>d\<close> doubly
  and \<open>s\<close> singly occupied orbitals in a block of dimension \<open>n\<close>.
\<close>

definition open_rows_result ::
  "matrix \<Rightarrow> matrix \<Rightarrow> nat \<Rightarrow> nat \<Rightarrow> nat \<Rightarrow> nat \<Rightarrow> nat \<Rightarrow> matrix \<Rightarrow> matrix" where
  "open_rows_result Fct Fot h d s n r F = (\<lambda>h' a b.
     if h' \<noteq> h then F h' a b
     else if d \<le> a \<and> a < r \<and> d \<le> b \<and> b < r then Fot h (max a b) (min a b)
     else if d \<le> a \<and> a < r then
        (if b < d then 2 * (Fct h a b - Fot h a b)
         else if d + s \<le> b \<and> b < n then 2 * Fot h a b
         else if b < d + s then Fot h a b
         else F h a b)
     else if d \<le> b \<and> b < r then
        (if a < d then 2 * (Fct h b a - Fot h b a)
         else if d + s \<le> a \<and> a < n then 2 * Fot h b a
         else if a < d + s then Fot h b a
         else F h a b)
     else F h' a b)"

text \<open>The effective Fock matrix after the blocks below \<open>N\<close>.\<close>

definition blocks_result ::
  "matrix \<Rightarrow> matrix \<Rightarrow> nat list \<Rightarrow> nat list \<Rightarrow> nat list \<Rightarrow> nat \<Rightarrow> matrix \<Rightarrow> matrix" where
  "blocks_result Fct Fot docc socc dims N F = (\<lambda>h a b.
     if h < N
     then open_rows_result Fct Fot h (docc ! h) (socc ! h) (dims ! h) (docc ! h + socc ! h) F h a b
     else F h a b)"


section \<open>The density builder: proofs\<close>

lemma fold_add_sum:
  "fold (\<lambda>m val. val + f m) [a..<b] (s::real) = s + sum f {a..<b}"
proof (induction b)
  case 0
  then show ?case by simp
next
  case (Suc b)
  show ?case
  proof (cases "a \<le> b")
    case True
    then show ?thesis using Suc by (simp add: sum.atLeastLessThan_Suc)
  next
    case False
    then show ?thesis by simp
  qed
qed

lemma form_D_element_eq:
  "form_D_element h i j st =
     st\<lparr>Dc_' := mat_set (Dc_' st) h i j (Dc_sum st h i j),
        Do_' := mat_set (Do_' st) h i j (Do_sum st h i j)\<rparr>"
  by (simp add: form_D_element_def Let_def fold_add_sum mat_get_def Dc_sum_def Do_sum_def
      atLeast0LessThan)

lemma Dc_sum_upd [simp]:
  "Dc_sum (st\<lparr>Dc_' := a, Do_' := b\<rparr>) = Dc_sum st"
  "Do_sum (st\<lparr>Dc_' := a, Do_' := b\<rparr>) = Do_sum st"
  by (simp_all add: Dc_sum_def Do_sum_def fun_eq_iff)

lemma rohf_D_cong:
  "a = a' \<Longrightarrow> b = b' \<Longrightarrow> st\<lparr>Dc_' := a, Do_' := b\<rparr> = st\<lparr>Dc_' := a', Do_' := b'\<rparr>"
  by simp

lemma form_D_row:
  "fold (\<lambda>j. form_D_element h i j) [0..<n] st =
     st\<lparr>Dc_' := (\<lambda>h' i' j'. if h' = h \<and> i' = i \<and> j' < n then Dc_sum st h i j' else Dc_' st h' i' j'),
        Do_' := (\<lambda>h' i' j'. if h' = h \<and> i' = i \<and> j' < n then Do_sum st h i j' else Do_' st h' i' j')\<rparr>"
  (is "?L n = ?R n")
proof (induction n)
  case 0
  then show ?case by simp
next
  case (Suc n)
  have "?L (Suc n) = form_D_element h i n (?L n)"
    by simp
  also have "\<dots> = form_D_element h i n (?R n)"
    by (simp only: Suc)
  also have "\<dots> = ?R (Suc n)"
    by (simp add: form_D_element_eq mat_set_def cong: if_cong) (intro rohf_D_cong ext; auto simp: less_Suc_eq)
  finally show ?case .
qed

lemma form_D_block:
  "fold (\<lambda>i. fold (\<lambda>j. form_D_element h i j) [0..<d]) [0..<n] st =
     st\<lparr>Dc_' := (\<lambda>h' i' j'. if h' = h \<and> i' < n \<and> j' < d then Dc_sum st h i' j' else Dc_' st h' i' j'),
        Do_' := (\<lambda>h' i' j'. if h' = h \<and> i' < n \<and> j' < d then Do_sum st h i' j' else Do_' st h' i' j')\<rparr>"
  (is "?L n = ?R n")
proof (induction n)
  case 0
  then show ?case by simp
next
  case (Suc n)
  have "?L (Suc n) = fold (\<lambda>j. form_D_element h n j) [0..<d] (?L n)"
    by simp
  also have "\<dots> = fold (\<lambda>j. form_D_element h n j) [0..<d] (?R n)"
    by (simp only: Suc)
  also have "\<dots> = ?R (Suc n)"
    by (simp add: form_D_row cong: if_cong) (intro rohf_D_cong ext; auto simp: less_Suc_eq)
  finally show ?case .
qed

lemma form_D_blocks:
  "fold (\<lambda>h. fold (\<lambda>i. fold (\<lambda>j. form_D_element h i j) [0..<ds ! h]) [0..<ds ! h]) [0..<n] st =
     st\<lparr>Dc_' := (\<lambda>h' i' j'. if h' < n \<and> i' < ds ! h' \<and> j' < ds ! h' then Dc_sum st h' i' j' else Dc_' st h' i' j'),
        Do_' := (\<lambda>h' i' j'. if h' < n \<and> i' < ds ! h' \<and> j' < ds ! h' then Do_sum st h' i' j' else Do_' st h' i' j')\<rparr>"
  (is "?L n = ?R n")
proof (induction n)
  case 0
  then show ?case by simp
next
  case (Suc n)
  have "?L (Suc n) =
      fold (\<lambda>i. fold (\<lambda>j. form_D_element n i j) [0..<ds ! n]) [0..<ds ! n] (?L n)"
    by simp
  also have "\<dots> = fold (\<lambda>i. fold (\<lambda>j. form_D_element n i j) [0..<ds ! n]) [0..<ds ! n] (?R n)"
    by (simp only: Suc)
  also have "\<dots> = ?R (Suc n)"
    by (simp add: form_D_block cong: if_cong) (intro rohf_D_cong ext; auto simp: less_Suc_eq)
  finally show ?case .
qed

lemma form_D_closed:
  "form_D st =
     st\<lparr>Dc_' := (\<lambda>h i j. if h < nirreps st \<and> i < opi st ! h \<and> j < opi st ! h
                       then Dc_sum st h i j else Dc_' st h i j),
        Do_' := (\<lambda>h i j. if h < nirreps st \<and> i < opi st ! h \<and> j < opi st ! h
                       then Do_sum st h i j else Do_' st h i j)\<rparr>"
  unfolding form_D_def by (rule form_D_blocks)

text \<open>
  C6. For every irrep \<open>h\<close> whose occupied orbitals fit into its block and indices \<open>p\<close>,
  \<open>q\<close> of the block, after \<open>form_D\<close> the closed
  density at \<open>(h, p, q)\<close> is the sum of \<open>C[h][p][m] * C[h][q][m]\<close> over the doubly occupied
  columns \<open>m < doccpi[h]\<close>, the open density is the same sum over the singly occupied
  columns \<open>doccpi[h] \<le> m < doccpi[h] + soccpi[h]\<close>, both taken from the coefficients
  and the occupations before the call, and no member other than \<open>Dc\<close> and \<open>Do\<close> has
  changed.
\<close>

theorem form_D_density:
  assumes "h < nirreps st" and "p < opi st ! h" and "q < opi st ! h"
    and "doccpi_' st ! h + soccpi_' st ! h \<le> opi st ! h"
  shows "Dc_' (form_D st) h p q = (\<Sum>m<doccpi_' st ! h. C_' st h p m * C_' st h q m)
       \<and> Do_' (form_D st) h p q =
           (\<Sum>m = doccpi_' st ! h..<doccpi_' st ! h + soccpi_' st ! h.
               C_' st h p m * C_' st h q m)
       \<and> form_D st = st\<lparr>Dc_' := Dc_' (form_D st), Do_' := Do_' (form_D st)\<rparr>"
  using assms by (simp add: form_D_closed Dc_sum_def Do_sum_def)

theorem form_D_density_witness:
  "0 < nirreps example_rohf \<and> 1 < opi example_rohf ! 0
   \<and> doccpi_' example_rohf ! 0 + soccpi_' example_rohf ! 0 \<le> opi example_rohf ! 0
   \<and> Dc_' (form_D example_rohf) 0 1 1 = 0 \<and> Do_' (form_D example_rohf) 0 1 1 = 1
   \<and> Dc_' (form_D example_rohf) 0 0 0 = 1"
  using form_D_density [of 0 example_rohf 1 1] form_D_density [of 0 example_rohf 0 0]
  by (simp add: example_rohf_def unit_matrix_def)

section \<open>The effective Fock matrix: proofs\<close>

lemma sum_below_2: "(\<Sum>k<(2::nat). f k) = (f 0 + f 1 :: real)"
  by (simp add: numeral_2_eq_2)

lemma sum_below_3: "(\<Sum>k<(3::nat). f k) = (f 0 + f 1 + f 2 :: real)"
  by (simp add: numeral_3_eq_3 numeral_2_eq_2)

lemma fold_unchanged:
  "(\<And>x. x \<in> set xs \<Longrightarrow> f x s = s) \<Longrightarrow> fold f xs s = s"
  by (induction xs) simp_all

text \<open>
  C7. When no irrep has a singly occupied orbital, the effective Fock matrix that
  \<open>form_F\<close> assembles is the closed Fock matrix \<open>H + Gc\<close> transformed into the basis of
  the current orbitals, entry by entry and in every block: each loop over the open
  rows runs over an empty range and the copy is left as it is.
\<close>

theorem form_F_closed_shell_limit:
  assumes "\<forall>h<nirreps st. soccpi_' st ! h = 0"
  shows "Feff_' (form_F st) = mat_transform (opi st) (Fc_' (form_F st)) (C_' st)
       \<and> Fc_' (form_F st) = mat_add (H_' st) (Gc_' st)"
proof -
  define Fct where "Fct = mat_transform (opi st) (mat_add (H_' st) (Gc_' st)) (C_' st)"
  define Fot where "Fot = mat_transform (opi st) (mat_add (mat_scale (H_' st) 0.5) (Go_' st)) (C_' st)"
  define s0 where "s0 = st\<lparr>Fc_' := mat_add (H_' st) (Gc_' st),
                          Fo_' := mat_add (mat_scale (H_' st) 0.5) (Go_' st), Feff_' := Fct\<rparr>"
  have "form_F st =
        fold (\<lambda>h st. fold (form_F_open_row Fct Fot h)
                         [doccpi_' st ! h..<doccpi_' st ! h + soccpi_' st ! h] st)
          [0..<nirreps st] s0"
    by (simp add: form_F_def Let_def Fct_def Fot_def s0_def)
  also have "\<dots> = s0"
  proof (rule fold_unchanged)
    fix h assume "h \<in> set [0..<nirreps st]"
    then have "soccpi_' s0 ! h = 0"
      using assms by (simp add: s0_def)
    then show "fold (form_F_open_row Fct Fot h)
                 [doccpi_' s0 ! h..<doccpi_' s0 ! h + soccpi_' s0 ! h] s0 = s0"
      by simp
  qed
  finally have eq: "form_F st = s0" .
  show ?thesis
    unfolding eq by (simp add: s0_def Fct_def)
qed

theorem form_F_closed_shell_limit_witness:
  "nirreps (example_rohf\<lparr>soccpi_' := [0]\<rparr>) = 1
   \<and> soccpi_' (example_rohf\<lparr>soccpi_' := [0]\<rparr>) ! 0 = 0
   \<and> Feff_' (form_F (example_rohf\<lparr>soccpi_' := [0]\<rparr>)) 0 1 1 = 1
   \<and> Feff_' (form_F (example_rohf\<lparr>soccpi_' := [0]\<rparr>)) 0 0 1 = 0"
proof -
  let ?st = "example_rohf\<lparr>soccpi_' := [0]\<rparr>"
  have h: "\<forall>h<nirreps ?st. soccpi_' ?st ! h = 0"
    by (simp add: example_rohf_def)
  have "Feff_' (form_F ?st) = mat_transform (opi ?st) (mat_add (H_' ?st) (Gc_' ?st)) (C_' ?st)"
    using form_F_closed_shell_limit [OF h] by simp
  then have "Feff_' (form_F ?st) 0 1 1 = 1" "Feff_' (form_F ?st) 0 0 1 = 0"
    by (simp_all add: example_rohf_def unit_matrix_def mat_transform_def mat_add_def mat_zero_def
        sum_below_2)
  then show ?thesis by (simp add: example_rohf_def)
qed

text \<open>
  C1. In the small solver the second orbital is singly occupied. After \<open>form_F\<close> the
  open-open entry of the effective Fock matrix is 1/2, the entry of the transformed
  open Fock matrix, while the transformed closed Fock matrix has the entry 1 there:
  the last loop over the open columns overwrites the open-open block with the open
  Fock matrix.
\<close>

theorem form_F_open_open_block:
  "Feff_' (form_F example_rohf) 0 1 1 = 1 / 2
   \<and> mat_transform (opi example_rohf) (Fc_' (form_F example_rohf)) (C_' example_rohf) 0 1 1 = 1"
  by (simp add: form_F_def form_F_open_row_def Let_def example_rohf_def unit_matrix_def
      mat_transform_def mat_add_def mat_zero_def mat_scale_def mat_set_def mat_get_def sum_below_2)

section \<open>The supermatrices: proofs\<close>

lemma tri_Suc: "tri (Suc a) = tri a + a + 1"
proof -
  have "Suc a * (Suc a + 1) = a * (a + 1) + (a + 1) * 2" by simp
  then have "tri (Suc a) = (a * (a + 1) + (a + 1) * 2) div 2" by (simp only: tri_def)
  also have "\<dots> = (a + 1) + a * (a + 1) div 2" by (rule div_mult_self1) simp
  finally show ?thesis by (simp add: tri_def)
qed

lemma tri_mono: "a \<le> b \<Longrightarrow> tri a \<le> tri b"
  by (induction b) (auto simp: tri_Suc le_Suc_eq)

lemma tri_row_less: "a < b \<Longrightarrow> tri a + a < tri b"
proof -
  assume "a < b"
  then have "Suc a \<le> b" by simp
  then have "tri (Suc a) \<le> tri b" by (rule tri_mono)
  then show ?thesis by (simp add: tri_Suc)
qed

lemma INDEX2_tri: "INDEX2 i j = (if i \<ge> j then tri i + j else tri j + i)"
  by (simp add: INDEX2_def tri_def)

lemma INDEX2_commute: "INDEX2 i j = INDEX2 j i"
  by (auto simp: INDEX2_tri)

lemma tri_index_inj:
  assumes "c \<le> b" "c' \<le> b'" "tri b + c = tri b' + c'"
  shows "b = b' \<and> c = c'"
proof -
  have "\<not> b < b'" using tri_row_less [of b b'] assms by linarith
  moreover have "\<not> b' < b" using tri_row_less [of b' b] assms by linarith
  ultimately have "b = b'" by simp
  with assms show ?thesis by simp
qed

lemma INDEX2_eq_diag: "INDEX2 b c = INDEX2 a a \<longleftrightarrow> b = a \<and> c = a"
proof
  assume h: "INDEX2 b c = INDEX2 a a"
  show "b = a \<and> c = a"
  proof (cases "c \<le> b")
    case True
    then show ?thesis using h tri_index_inj [of c b a a] by (simp add: INDEX2_tri)
  next
    case False
    then show ?thesis using h tri_index_inj [of b c a a] by (simp add: INDEX2_tri)
  qed
qed simp

lemma INDEX2_less_tri:
  assumes "i < n" and "j < n"
  shows "INDEX2 i j < tri n"
proof (cases "j \<le> i")
  case True
  have "tri i + j \<le> tri i + i" using True by simp
  also have "\<dots> < tri n" using assms(1) by (rule tri_row_less)
  finally show ?thesis using True by (simp add: INDEX2_tri)
next
  case False
  have "tri j + i \<le> tri j + j" using False by simp
  also have "\<dots> < tri n" using assms(2) by (rule tri_row_less)
  finally show ?thesis using False by (simp add: INDEX2_tri)
qed

lemma halved_step:
  "(halved n xs)[INDEX2 n n := halved n xs ! INDEX2 n n / 2] = halved (Suc n) xs"
proof (rule nth_equalityI)
  show "length ((halved n xs)[INDEX2 n n := halved n xs ! INDEX2 n n / 2]) = length (halved (Suc n) xs)"
    by (simp add: halved_def)
next
  fix m assume "m < length ((halved n xs)[INDEX2 n n := halved n xs ! INDEX2 n n / 2])"
  then have m: "m < length xs" by (simp add: halved_def)
  have notin: "INDEX2 n n \<notin> (\<lambda>ij. INDEX2 ij ij) ` {..<n}"
    by (auto simp: INDEX2_eq_diag)
  show "(halved n xs)[INDEX2 n n := halved n xs ! INDEX2 n n / 2] ! m = halved (Suc n) xs ! m"
  proof (cases "m = INDEX2 n n")
    case True
    then show ?thesis using m notin by (simp add: halved_def lessThan_Suc)
  next
    case False
    then show ?thesis using m by (simp add: halved_def lessThan_Suc)
  qed
qed

lemma form_PK_halve_fold:
  "fold (\<lambda>ij st.
        let st = st\<lparr>pk_' := (pk_' st)[INDEX2 ij ij := pk_' st ! INDEX2 ij ij * 0.5]\<rparr>
        in st\<lparr>k_' := (k_' st)[INDEX2 ij ij := k_' st ! INDEX2 ij ij * 0.5]\<rparr>) [0..<n] st
   = st\<lparr>pk_' := halved n (pk_' st), k_' := halved n (k_' st)\<rparr>"
proof (induction n)
  case 0
  have "halved 0 (pk_' st) = pk_' st" "halved 0 (k_' st) = k_' st"
    by (simp_all add: halved_def map_nth)
  then show ?case by simp
next
  case (Suc n)
  let ?f = "\<lambda>ij st.
        let st = st\<lparr>pk_' := (pk_' st)[INDEX2 ij ij := pk_' st ! INDEX2 ij ij * 0.5]\<rparr>
        in st\<lparr>k_' := (k_' st)[INDEX2 ij ij := k_' st ! INDEX2 ij ij * 0.5]\<rparr>"
  have "fold ?f [0..<Suc n] st = ?f n (fold ?f [0..<n] st)" by simp
  also have "\<dots> = ?f n (st\<lparr>pk_' := halved n (pk_' st), k_' := halved n (k_' st)\<rparr>)"
    by (simp only: Suc)
  also have "\<dots> = st\<lparr>pk_' := halved (Suc n) (pk_' st), k_' := halved (Suc n) (k_' st)\<rparr>"
    by (simp add: Let_def halved_step)
  finally show ?case .
qed

lemma form_PK_halve_closed:
  "form_PK_halve st = st\<lparr>pk_' := halved (pk_pairs_' st) (pk_' st), k_' := halved (pk_pairs_' st) (k_' st)\<rparr>"
  unfolding form_PK_halve_def by (rule form_PK_halve_fold)

lemma halved_nth:
  assumes "bra < n" "INDEX2 bra ket < length xs"
  shows "halved n xs ! INDEX2 bra ket = (if bra = ket then xs ! INDEX2 bra ket * 0.5 else xs ! INDEX2 bra ket)"
proof -
  have "INDEX2 bra ket \<in> (\<lambda>ij. INDEX2 ij ij) ` {..<n} \<longleftrightarrow> bra = ket"
    using assms(1) by (auto simp: INDEX2_eq_diag)
  moreover have "halved n xs ! INDEX2 bra ket =
      (if INDEX2 bra ket \<in> (\<lambda>ij. INDEX2 ij ij) ` {..<n}
       then xs ! INDEX2 bra ket * 0.5 else xs ! INDEX2 bra ket)"
    using assms(2) unfolding halved_def by (subst nth_map) simp_all
  ultimately show ?thesis by simp
qed

lemma form_PK_J_frame:
  "length (pk_' (form_PK_J is js ks ls ii jj kk ll val st)) = length (pk_' st)"
  "length (k_' (form_PK_J is js ks ls ii jj kk ll val st)) = length (k_' st)"
  "pk_symoffset_' (form_PK_J is js ks ls ii jj kk ll val st) = pk_symoffset_' st"
  by (simp_all add: form_PK_J_def Let_def)

lemma form_PK_J_pk:
  assumes "n < length (pk_' st)"
  shows "pk_' (form_PK_J is js ks ls ii jj kk ll val st) ! n = pk_' st ! n
           + (if is = js \<and> ks = ls
                 \<and> n = INDEX2 (INDEX2 ii jj + pk_symoffset_' st ! is) (INDEX2 kk ll + pk_symoffset_' st ! ks)
              then val else 0)
           - (if is = js \<and> ks = ls \<and> ii \<noteq> jj \<and> kk \<noteq> ll \<and> is = ls \<and> js = ks
                 \<and> n = INDEX2 (INDEX2 ii ll + pk_symoffset_' st ! is) (INDEX2 jj kk + pk_symoffset_' st ! js)
              then (if ii = ll \<or> jj = kk then 0.5 else 0.25) * val else 0)"
proof (cases "is = js \<and> ks = ls")
  case False
  then show ?thesis by (auto simp: form_PK_J_def)
next
  case J: True
  show ?thesis
  proof (cases "ii \<noteq> jj \<and> kk \<noteq> ll \<and> is = ls \<and> js = ks")
    case False
    then show ?thesis using J assms by (auto simp: form_PK_J_def Let_def nth_list_update)
  next
    case True
    then show ?thesis using J assms
      by (cases "ii = ll \<or> jj = kk") (auto simp: form_PK_J_def Let_def nth_list_update)
  qed
qed

lemma form_PK_J_k:
  assumes "n < length (k_' st)"
  shows "k_' (form_PK_J is js ks ls ii jj kk ll val st) ! n = k_' st ! n
           - (if is = js \<and> ks = ls \<and> ii \<noteq> jj \<and> kk \<noteq> ll \<and> is = ls \<and> js = ks
                 \<and> n = INDEX2 (INDEX2 ii ll + pk_symoffset_' st ! is) (INDEX2 jj kk + pk_symoffset_' st ! js)
              then (if ii = ll \<or> jj = kk then 0.5 else 0.25) * val else 0)"
proof (cases "is = js \<and> ks = ls")
  case False
  then show ?thesis by (auto simp: form_PK_J_def)
next
  case J: True
  show ?thesis
  proof (cases "ii \<noteq> jj \<and> kk \<noteq> ll \<and> is = ls \<and> js = ks")
    case False
    then show ?thesis using J assms by (auto simp: form_PK_J_def Let_def nth_list_update)
  next
    case True
    then show ?thesis using J assms
      by (cases "ii = ll \<or> jj = kk") (auto simp: form_PK_J_def Let_def nth_list_update)
  qed
qed

lemma form_PK_K_pk:
  assumes "n < length (pk_' st)"
  shows "pk_' (form_PK_K is js ks ls ii jj kk ll val st) ! n = pk_' st ! n
           - (if is = ks \<and> js = ls
                 \<and> n = INDEX2 (INDEX2 ii kk + pk_symoffset_' st ! is) (INDEX2 jj ll + pk_symoffset_' st ! js)
              then (if ii = kk \<or> jj = ll then 0.5 else 0.25) * val else 0)"
  using assms by (cases "is = ks \<and> js = ls") (auto simp: form_PK_K_def Let_def nth_list_update)

lemma form_PK_K_k:
  assumes "n < length (k_' st)"
  shows "k_' (form_PK_K is js ks ls ii jj kk ll val st) ! n = k_' st ! n
           - (if is = ks \<and> js = ls
                 \<and> n = INDEX2 (INDEX2 ii kk + pk_symoffset_' st ! is) (INDEX2 jj ll + pk_symoffset_' st ! js)
              then (if ii = kk \<or> jj = ll then 0.5 else 0.25) * val else 0)"
  using assms by (cases "is = ks \<and> js = ls") (auto simp: form_PK_K_def Let_def nth_list_update)


lemma form_PK_J_members:
  "form_PK_J is js ks ls ii jj kk ll val st =
     st\<lparr>pk_' := pk_' (form_PK_J is js ks ls ii jj kk ll val st),
        k_' := k_' (form_PK_J is js ks ls ii jj kk ll val st)\<rparr>"
  by (simp add: form_PK_J_def Let_def)

lemma form_PK_K_members:
  "form_PK_K is js ks ls ii jj kk ll val st =
     st\<lparr>pk_' := pk_' (form_PK_K is js ks ls ii jj kk ll val st),
        k_' := k_' (form_PK_K is js ks ls ii jj kk ll val st)\<rparr>"
  by (simp add: form_PK_K_def Let_def)

lemma form_PK_integral_frame:
  "form_PK_integral i j k l val st =
     st\<lparr>pk_' := pk_' (form_PK_integral i j k l val st), k_' := k_' (form_PK_integral i j k l val st)\<rparr>"
proof -
  define s1 where "s1 = form_PK_J (so2symblk_' st ! i) (so2symblk_' st ! j) (so2symblk_' st ! k)
      (so2symblk_' st ! l) (so2index_' st ! i) (so2index_' st ! j) (so2index_' st ! k)
      (so2index_' st ! l) val st"
  define s2 where "s2 = form_PK_K (so2symblk_' st ! i) (so2symblk_' st ! j) (so2symblk_' st ! k)
      (so2symblk_' st ! l) (so2index_' st ! i) (so2index_' st ! j) (so2index_' st ! k)
      (so2index_' st ! l) val s1"
  have a: "s1 = st\<lparr>pk_' := pk_' s1, k_' := k_' s1\<rparr>"
    unfolding s1_def by (rule form_PK_J_members)
  have b: "s2 = s1\<lparr>pk_' := pk_' s2, k_' := k_' s2\<rparr>"
    unfolding s2_def by (rule form_PK_K_members)
  have "s2 = st\<lparr>pk_' := pk_' s2, k_' := k_' s2\<rparr>"
    by (subst b, subst a) simp
  moreover have "form_PK_integral i j k l val st = s2"
    by (simp add: form_PK_integral_def Let_def s1_def s2_def)
  ultimately show ?thesis by simp
qed

lemma form_PK_K_frame:
  "length (pk_' (form_PK_K is js ks ls ii jj kk ll val st)) = length (pk_' st)"
  "length (k_' (form_PK_K is js ks ls ii jj kk ll val st)) = length (k_' st)"
  by (simp_all add: form_PK_K_def Let_def)

lemma form_PK_integral_keeps:
  "\<exists>p k'. form_PK_integral i j k l val st = st\<lparr>pk_' := p, k_' := k'\<rparr>
      \<and> length p = length (pk_' st) \<and> length k' = length (k_' st)"
proof -
  define s1 where "s1 = form_PK_J (so2symblk_' st ! i) (so2symblk_' st ! j) (so2symblk_' st ! k)
      (so2symblk_' st ! l) (so2index_' st ! i) (so2index_' st ! j) (so2index_' st ! k)
      (so2index_' st ! l) val st"
  define s2 where "s2 = form_PK_K (so2symblk_' st ! i) (so2symblk_' st ! j) (so2symblk_' st ! k)
      (so2symblk_' st ! l) (so2index_' st ! i) (so2index_' st ! j) (so2index_' st ! k)
      (so2index_' st ! l) val s1"
  have eq: "form_PK_integral i j k l val st = s2"
    by (simp add: form_PK_integral_def Let_def s1_def s2_def)
  have "length (pk_' s2) = length (pk_' s1)" "length (k_' s2) = length (k_' s1)"
    unfolding s2_def by (rule form_PK_K_frame)+
  moreover have "length (pk_' s1) = length (pk_' st)" "length (k_' s1) = length (k_' st)"
    unfolding s1_def by (rule form_PK_J_frame)+
  moreover have "s2 = st\<lparr>pk_' := pk_' s2, k_' := k_' s2\<rparr>"
    using form_PK_integral_frame [of i j k l val st] by (simp only: eq)
  ultimately have "s2 = st\<lparr>pk_' := pk_' s2, k_' := k_' s2\<rparr>
      \<and> length (pk_' s2) = length (pk_' st) \<and> length (k_' s2) = length (k_' st)"
    by simp
  then show ?thesis unfolding eq by blast
qed

lemma form_PK_buffer_fold_keeps:
  "\<exists>p k'. snd (fold (\<lambda>idx (fi, st).
            let i = (if labels b ! fi > 0 then labels b ! fi else - (labels b ! fi));
                j = labels b ! (fi + 1);
                k = labels b ! (fi + 2);
                l = labels b ! (fi + 3);
                val = buf_values b ! idx
            in (fi + 4, form_PK_integral (nat i) (nat j) (nat k) (nat l) val st))
          xs (fi, st)) = st\<lparr>pk_' := p, k_' := k'\<rparr>
      \<and> length p = length (pk_' st) \<and> length k' = length (k_' st)"
  (is "\<exists>p k'. snd (fold ?g xs (fi, st)) = _ \<and> _ \<and> _")
proof (induction xs arbitrary: fi st)
  case Nil
  have "snd (fold ?g [] (fi, st)) = st\<lparr>pk_' := pk_' st, k_' := k_' st\<rparr>" by simp
  then show ?case by blast
next
  case (Cons x xs)
  define st1 where "st1 = form_PK_integral
      (nat (if labels b ! fi > 0 then labels b ! fi else - (labels b ! fi)))
      (nat (labels b ! (fi + 1))) (nat (labels b ! (fi + 2))) (nat (labels b ! (fi + 3)))
      (buf_values b ! x) st"
  have g: "?g x (fi, st) = (fi + 4, st1)"
    by (simp add: st1_def Let_def)
  from form_PK_integral_keeps obtain p1 k1 where st1: "st1 = st\<lparr>pk_' := p1, k_' := k1\<rparr>"
    "length p1 = length (pk_' st)" "length k1 = length (k_' st)"
    unfolding st1_def by blast
  from Cons.IH [of "fi + 4" st1] obtain p k' where
    r: "snd (fold ?g xs (fi + 4, st1)) = st1\<lparr>pk_' := p, k_' := k'\<rparr>"
    "length p = length (pk_' st1)" "length k' = length (k_' st1)" by blast
  have "fold ?g (x # xs) (fi, st) = fold ?g xs (fi + 4, st1)"
    by (simp only: fold_simps comp_def g)
  then have "snd (fold ?g (x # xs) (fi, st)) = st\<lparr>pk_' := p, k_' := k'\<rparr>"
    using r(1) by (simp add: st1(1))
  moreover have "length p = length (pk_' st)" "length k' = length (k_' st)"
    using r(2,3) st1 by simp_all
  ultimately show ?case by blast
qed

lemma form_PK_buffer_keeps:
  "\<exists>p k'. form_PK_buffer b st = st\<lparr>pk_' := p, k_' := k'\<rparr>
      \<and> length p = length (pk_' st) \<and> length k' = length (k_' st)"
  unfolding form_PK_buffer_def by (rule form_PK_buffer_fold_keeps)

lemma form_PK_read_keeps:
  "form_PK_read bs st = Inr mid \<Longrightarrow>
   \<exists>p k'. mid = st\<lparr>pk_' := p, k_' := k'\<rparr>
      \<and> length p = length (pk_' st) \<and> length k' = length (k_' st)"
proof (induction bs arbitrary: st)
  case Nil
  then show ?case by simp
next
  case (Cons b bs)
  obtain p1 k1 where b: "form_PK_buffer b st = st\<lparr>pk_' := p1, k_' := k1\<rparr>"
    "length p1 = length (pk_' st)" "length k1 = length (k_' st)"
    using form_PK_buffer_keeps by blast
  show ?case
  proof (cases "last_buffer b")
    case True
    then have "mid = form_PK_buffer b st" using Cons.prems by simp
    then show ?thesis using b by blast
  next
    case False
    then have "form_PK_read bs (form_PK_buffer b st) = Inr mid" using Cons.prems by simp
    from Cons.IH [OF this] obtain p k' where
      r: "mid = (form_PK_buffer b st)\<lparr>pk_' := p, k_' := k'\<rparr>"
      "length p = length (pk_' (form_PK_buffer b st))" "length k' = length (k_' (form_PK_buffer b st))"
      by blast
    have "mid = st\<lparr>pk_' := p, k_' := k'\<rparr>" using r(1) by (simp add: b(1))
    moreover have "length p = length (pk_' st)" "length k' = length (k_' st)"
      using r(2,3) b by simp_all
    ultimately show ?thesis by blast
  qed
qed

text \<open>
  C4, as the code has it. One integral \<open>(ij|kl)\<close> changes the entry \<open>n\<close> of PK and of K as
  follows, with the irreps \<open>is\<close>, \<open>js\<close>, \<open>ks\<close>, \<open>ls\<close> and the offsets \<open>ii\<close>, \<open>jj\<close>, \<open>kk\<close>, \<open>ll\<close>
  of the four labels inside their irreps. The value is added to PK at the index of the
  pairing \<open>(ij|kl)\<close> when \<open>is = js\<close> and \<open>ks = ls\<close>, at full weight. It is subtracted from
  PK and from K at the index of the pairing \<open>(il|jk)\<close> when the Coulomb condition holds,
  \<open>ii \<noteq> jj\<close>, \<open>kk \<noteq> ll\<close>, \<open>is = ls\<close> and \<open>js = ks\<close>, scaled by 0.5 when \<open>ii = ll\<close> or
  \<open>jj = kk\<close> and by 0.25 otherwise; and at the index of the pairing \<open>(ik|jl)\<close> when
  \<open>is = ks\<close> and \<open>js = ls\<close>, scaled by 0.5 when \<open>ii = kk\<close> or \<open>jj = ll\<close> and by 0.25
  otherwise. The scale 0.5 belongs to a diagonal pair of the exchange pairing itself,
  not of the integral. No other member changes.
\<close>

theorem form_PK_integral_deposit:
  fixes st :: rohf and i j k l :: nat and val :: real
  defines "is \<equiv> so2symblk_' st ! i" and "js \<equiv> so2symblk_' st ! j"
    and "ks \<equiv> so2symblk_' st ! k" and "ls \<equiv> so2symblk_' st ! l"
    and "ii \<equiv> so2index_' st ! i" and "jj \<equiv> so2index_' st ! j"
    and "kk \<equiv> so2index_' st ! k" and "ll \<equiv> so2index_' st ! l"
  defines "st' \<equiv> form_PK_integral i j k l val st"
  assumes n: "n < length (pk_' st)" "n < length (k_' st)"
  shows "pk_' st' ! n = pk_' st ! n
           + (if is = js \<and> ks = ls
                 \<and> n = INDEX2 (INDEX2 ii jj + pk_symoffset_' st ! is) (INDEX2 kk ll + pk_symoffset_' st ! ks)
              then val else 0)
           - (if is = js \<and> ks = ls \<and> ii \<noteq> jj \<and> kk \<noteq> ll \<and> is = ls \<and> js = ks
                 \<and> n = INDEX2 (INDEX2 ii ll + pk_symoffset_' st ! is) (INDEX2 jj kk + pk_symoffset_' st ! js)
              then (if ii = ll \<or> jj = kk then 0.5 else 0.25) * val else 0)
           - (if is = ks \<and> js = ls
                 \<and> n = INDEX2 (INDEX2 ii kk + pk_symoffset_' st ! is) (INDEX2 jj ll + pk_symoffset_' st ! js)
              then (if ii = kk \<or> jj = ll then 0.5 else 0.25) * val else 0)
       \<and> k_' st' ! n = k_' st ! n
           - (if is = js \<and> ks = ls \<and> ii \<noteq> jj \<and> kk \<noteq> ll \<and> is = ls \<and> js = ks
                 \<and> n = INDEX2 (INDEX2 ii ll + pk_symoffset_' st ! is) (INDEX2 jj kk + pk_symoffset_' st ! js)
              then (if ii = ll \<or> jj = kk then 0.5 else 0.25) * val else 0)
           - (if is = ks \<and> js = ls
                 \<and> n = INDEX2 (INDEX2 ii kk + pk_symoffset_' st ! is) (INDEX2 jj ll + pk_symoffset_' st ! js)
              then (if ii = kk \<or> jj = ll then 0.5 else 0.25) * val else 0)
       \<and> st' = st\<lparr>pk_' := pk_' st', k_' := k_' st'\<rparr>"
proof -
  let ?s1 = "form_PK_J is js ks ls ii jj kk ll val st"
  have st': "st' = form_PK_K is js ks ls ii jj kk ll val ?s1"
    by (simp add: st'_def form_PK_integral_def Let_def is_def js_def ks_def ls_def
        ii_def jj_def kk_def ll_def)
  have n1: "n < length (pk_' ?s1)" "n < length (k_' ?s1)"
    using n by (simp_all add: form_PK_J_frame)
  have "pk_' st' ! n = pk_' ?s1 ! n
           - (if is = ks \<and> js = ls
                 \<and> n = INDEX2 (INDEX2 ii kk + pk_symoffset_' st ! is) (INDEX2 jj ll + pk_symoffset_' st ! js)
              then (if ii = kk \<or> jj = ll then 0.5 else 0.25) * val else 0)"
    unfolding st' using form_PK_K_pk [OF n1(1)] by (simp only: form_PK_J_frame)
  moreover have "k_' st' ! n = k_' ?s1 ! n
           - (if is = ks \<and> js = ls
                 \<and> n = INDEX2 (INDEX2 ii kk + pk_symoffset_' st ! is) (INDEX2 jj ll + pk_symoffset_' st ! js)
              then (if ii = kk \<or> jj = ll then 0.5 else 0.25) * val else 0)"
    unfolding st' using form_PK_K_k [OF n1(2)] by (simp only: form_PK_J_frame)
  moreover have "st' = st\<lparr>pk_' := pk_' st', k_' := k_' st'\<rparr>"
    unfolding st'_def by (rule form_PK_integral_frame)
  ultimately show ?thesis
    by (simp only: form_PK_J_pk [OF n(1)] form_PK_J_k [OF n(2)])
qed

theorem form_PK_integral_deposit_witness:
  "3 < length (pk_' example_rohf) \<and> 3 < length (k_' example_rohf)
   \<and> pk_' (form_PK_integral 1 0 1 0 1 example_rohf) ! 3 = - 1 / 2
   \<and> k_' (form_PK_integral 1 0 1 0 1 example_rohf) ! 3 = - 1 / 2
   \<and> pk_' (form_PK_integral 1 0 1 0 1 example_rohf) ! 2 = 3 / 4
   \<and> k_' (form_PK_integral 1 0 1 0 1 example_rohf) ! 2 = - 1 / 4"
  using form_PK_integral_deposit [where n = 3 and st = example_rohf and i = 1 and j = 0
      and k = 1 and l = 0 and val = 1]
    form_PK_integral_deposit [where n = 2 and st = example_rohf and i = 1 and j = 0
      and k = 1 and l = 0 and val = 1]
  by (simp add: example_rohf_def INDEX2_def)

text \<open>
  C4, as the claim has it. For the integral (10|10) = 1 of the small solver neither
  index pair is diagonal, so the claim scales its exchange contributions by 0.25. The
  contribution under the pairing \<open>(ik|jl)\<close> = (11|00) goes to an off-diagonal index and
  is subtracted from K scaled by 0.5.
\<close>

theorem form_PK_exchange_scale_counterexample:
  "k_' (form_PK_integral 1 0 1 0 1 example_rohf) ! INDEX2 (INDEX2 1 1) (INDEX2 0 0)
     = k_' example_rohf ! INDEX2 (INDEX2 1 1) (INDEX2 0 0) - 0.5 * 1
   \<and> k_' (form_PK_integral 1 0 1 0 1 example_rohf) ! INDEX2 (INDEX2 1 1) (INDEX2 0 0)
     \<noteq> k_' example_rohf ! INDEX2 (INDEX2 1 1) (INDEX2 0 0) - spec_exchange_scale 1 0 1 0 * 1
   \<and> INDEX2 1 1 \<noteq> INDEX2 0 0"
  by (simp add: form_PK_integral_def form_PK_J_def form_PK_K_def example_rohf_def INDEX2_def Let_def spec_exchange_scale_def)

section \<open>The driver: proofs\<close>

lemma fold_rel:
  assumes refl: "\<And>a. R a a"
    and trans: "\<And>a b c. R a b \<Longrightarrow> R b c \<Longrightarrow> R a c"
    and step: "\<And>x a. R a (f x a)"
  shows "R a (fold f xs a)"
proof (induction xs arbitrary: a)
  case Nil
  show ?case by (simp add: refl)
next
  case (Cons x xs)
  have "R a (f x a)" by (rule step)
  moreover have "R (f x a) (fold f xs (f x a))" by (rule Cons)
  ultimately show ?case by (simp add: trans [of a "f x a"])
qed

lemma only_Feff_refl: "only_Feff s s"
  unfolding only_Feff_def by (rule exI [of _ "Feff_' s"]) simp

lemma only_Feff_trans: "only_Feff a b \<Longrightarrow> only_Feff b c \<Longrightarrow> only_Feff a c"
  unfolding only_Feff_def by auto

lemma only_Feff_set: "only_Feff s (s\<lparr>Feff_' := F\<rparr>)"
  unfolding only_Feff_def by auto

lemma only_Feff_fold:
  "(\<And>x a. only_Feff a (f x a)) \<Longrightarrow> only_Feff a (fold f xs a)"
  by (rule fold_rel [where R = only_Feff]) (auto intro: only_Feff_refl only_Feff_trans)

lemma form_F_open_row_only: "only_Feff st (form_F_open_row Fct Fot h i st)"
  unfolding form_F_open_row_def Let_def
  by (intro only_Feff_trans [OF only_Feff_fold only_Feff_trans [OF only_Feff_fold only_Feff_fold]]
      only_Feff_trans [OF only_Feff_set only_Feff_set])

lemma form_F_as_fold:
  "form_F st =
     fold (\<lambda>h st'. fold (form_F_open_row
              (mat_transform (opi st) (mat_add (H_' st) (Gc_' st)) (C_' st))
              (mat_transform (opi st) (mat_add (mat_scale (H_' st) 0.5) (Go_' st)) (C_' st)) h)
             [doccpi_' st' ! h..<doccpi_' st' ! h + soccpi_' st' ! h] st')
       [0..<nirreps st]
       (st\<lparr>Fc_' := mat_add (H_' st) (Gc_' st),
           Fo_' := mat_add (mat_scale (H_' st) 0.5) (Go_' st),
           Feff_' := mat_transform (opi st) (mat_add (H_' st) (Gc_' st)) (C_' st)\<rparr>)"
  by (simp add: form_F_def Let_def)

lemma form_F_members:
  "\<exists>F. form_F st = st\<lparr>Fc_' := mat_add (H_' st) (Gc_' st),
                         Fo_' := mat_add (mat_scale (H_' st) 0.5) (Go_' st), Feff_' := F\<rparr>"
proof -
  define s0 where "s0 = st\<lparr>Fc_' := mat_add (H_' st) (Gc_' st),
                          Fo_' := mat_add (mat_scale (H_' st) 0.5) (Go_' st),
                          Feff_' := mat_transform (opi st) (mat_add (H_' st) (Gc_' st)) (C_' st)\<rparr>"
  have "only_Feff s0 (form_F st)"
    unfolding form_F_as_fold s0_def [symmetric]
    by (intro only_Feff_fold form_F_open_row_only)
  then show ?thesis by (auto simp: only_Feff_def s0_def)
qed

lemma only_G_refl: "only_G s s"
  unfolding only_G_def by (rule exI [of _ "Gc_' s"], rule exI [of _ "Go_' s"]) simp

lemma only_G_trans:
  assumes "only_G a b" and "only_G b c"
  shows "only_G a c"
proof -
  from assms obtain A B A' B' where "b = a\<lparr>Gc_' := A, Go_' := B\<rparr>" "c = b\<lparr>Gc_' := A', Go_' := B'\<rparr>"
    unfolding only_G_def by blast
  then have "c = a\<lparr>Gc_' := A', Go_' := B'\<rparr>" by simp
  then show ?thesis unfolding only_G_def by (intro exI)
qed

lemma only_G_fold:
  "(\<And>x a. only_G (snd a) (snd (f x a))) \<Longrightarrow> only_G (snd a) (snd (fold f xs a))"
  by (rule fold_rel [where R = "\<lambda>a b. only_G (snd a) (snd b)"])
    (auto intro: only_G_refl only_G_trans)

lemma form_G_unpack_only: "only_G st (snd (form_G_unpack Gc_vector Go_vector st))"
proof -
  have "only_G (snd (0::nat, st)) (snd (form_G_unpack Gc_vector Go_vector st))"
    unfolding form_G_unpack_def
    by (intro only_G_fold) (auto simp: only_G_def Let_def split_def)
  then show ?thesis by simp
qed

lemma form_G_from_PK_members:
  "\<exists>A B. form_G_from_PK st = st\<lparr>Gc_' := A, Go_' := B\<rparr>"
proof -
  obtain Gcv Gov where "form_G_from_PK st = snd (form_G_unpack Gcv Gov (st\<lparr>Gc_' := mat_zero, Go_' := mat_zero\<rparr>))"
    by (simp add: form_G_from_PK_def Let_def split_def)
  moreover have "only_G (st\<lparr>Gc_' := mat_zero, Go_' := mat_zero\<rparr>)
      (snd (form_G_unpack Gcv Gov (st\<lparr>Gc_' := mat_zero, Go_' := mat_zero\<rparr>)))"
    by (rule form_G_unpack_only)
  ultimately show ?thesis by (auto simp: only_G_def)
qed

lemma form_C_members:
  "\<exists>e d s c. form_C ext st = st\<lparr>epsilon_' := e, doccpi_' := d, soccpi_' := s, C_' := c\<rparr>"
  by (auto simp: form_C_def Let_def split_def)

lemma loop_frame_refl: "loop_frame s s"
  by (simp add: loop_frame_def)

lemma loop_frame_trans: "loop_frame a b \<Longrightarrow> loop_frame b c \<Longrightarrow> loop_frame a c"
  by (simp add: loop_frame_def)

lemma form_G_from_PK_frame:
  "loop_frame st (form_G_from_PK st)" "diis_same st (form_G_from_PK st)"
  "E_' (form_G_from_PK st) = E_' st" "Eold_' (form_G_from_PK st) = Eold_' st"
  using form_G_from_PK_members [of st] by (auto simp: loop_frame_def diis_same_def)

lemma form_F_frame:
  "loop_frame st (form_F st)" "diis_same st (form_F st)"
  "E_' (form_F st) = E_' st" "Eold_' (form_F st) = Eold_' st"
  using form_F_members [of st] by (auto simp: loop_frame_def diis_same_def)

lemma compute_E_zero_density:
  assumes "Dc_' st = mat_zero" and "Do_' st = mat_zero"
  shows "compute_E st = nuclearrep_' st"
  using assms by (simp add: compute_E_def Let_def vector_dot_def mat_zero_def)

lemma first_energy_frame:
  "Dc_' (form_G_from_PK st) = Dc_' st" "Do_' (form_G_from_PK st) = Do_' st"
  "nuclearrep_' (form_G_from_PK st) = nuclearrep_' st"
  "Dc_' (form_F st) = Dc_' st" "Do_' (form_F st) = Do_' st"
  "nuclearrep_' (form_F st) = nuclearrep_' st"
  "Dc_' (save_fock opts st) = Dc_' st" "Do_' (save_fock opts st) = Do_' st"
  "nuclearrep_' (save_fock opts st) = nuclearrep_' st"
  using form_G_from_PK_members [of st] form_F_members [of st]
  by (auto simp: save_fock_def)

lemma form_C_frame:
  "loop_frame st (form_C ext st)" "diis_same st (form_C ext st)"
  "E_' (form_C ext st) = E_' st" "Eold_' (form_C ext st) = Eold_' st"
  using form_C_members [of ext st] by (auto simp: loop_frame_def diis_same_def)

lemma form_D_frame:
  "loop_frame st (form_D st)" "diis_same st (form_D st)"
  "E_' (form_D st) = E_' st" "Eold_' (form_D st) = Eold_' st"
  by (simp_all add: form_D_closed loop_frame_def diis_same_def)

lemma save_fock_frame:
  "loop_frame st (save_fock opts st)"
  "E_' (save_fock opts st) = E_' st" "Eold_' (save_fock opts st) = Eold_' st"
  by (simp_all add: save_fock_def loop_frame_def)

lemma diis_frame:
  "loop_frame st (snd (diis ext st))" "diis_same st (snd (diis ext st))"
  "E_' (snd (diis ext st)) = E_' st" "Eold_' (snd (diis ext st)) = Eold_' st"
  by (simp_all add: diis_def loop_frame_def diis_same_def split_def Let_def)

lemma scf_iteration_PK:
  assumes pk: "scf_type_' st = ''PK''"
  shows "\<exists>st' E diis_iter.
           scf_iteration ext opts iter (st, io) =
             Inr (st', io\<lparr>outfile := outfile io @ [Iteration iter E (E - E_' st) diis_iter]\<rparr>)
           \<and> E_' st' = E \<and> Eold_' st' = E_' st \<and> loop_frame st st'
           \<and> diis_iter = (diis_enabled_' opts \<and> min_diis_vectors_' opts \<le> iter \<and> iter mod 6 = 0)
           \<and> diis_manager_' st' =
               (if diis_enabled_' opts \<and> \<not> initialized_diis_manager_' st
                then \<lparr>diis_capacity = max_diis_vectors_' opts, diis_history = []\<rparr>
                else diis_manager_' st)
           \<and> initialized_diis_manager_' st' = (initialized_diis_manager_' st \<or> diis_enabled_' opts)
           \<and> (Dc_' st = mat_zero \<and> Do_' st = mat_zero \<longrightarrow> E = nuclearrep_' st)"
proof -
  define s1 where "s1 = st\<lparr>Dc_old_' := Dc_' st, Do_old_' := Do_' st, Eold_' := E_' st\<rparr>"
  define s2 where "s2 = form_G_from_PK s1"
  define s3 where "s3 = form_F s2"
  define s4 where "s4 = (if diis_enabled_' opts then save_fock opts s3 else s3)"
  define s5 where "s5 = s4\<lparr>E_' := compute_E s4\<rparr>"
  define b where "b = (diis_enabled_' opts \<and> min_diis_vectors_' opts \<le> iter \<and> iter mod 6 = 0)"
  define s6 where "s6 = (if b then snd (diis ext s5) else s5)"
  define s7 where "s7 = form_C ext s6"
  define s8 where "s8 = form_D s7"
  have pk1: "scf_type_' s1 = ''PK''"
    by (simp add: s1_def pk)
  have eq: "scf_iteration ext opts iter (st, io) =
      Inr (s8, io\<lparr>outfile := outfile io @ [Iteration iter (E_' s6) (E_' s6 - Eold_' s6) b]\<rparr>)"
    unfolding scf_iteration_def
    by (simp add: Let_def pk s1_def [symmetric] pk1 s2_def [symmetric] s3_def [symmetric] s4_def [symmetric]
        s5_def [symmetric] b_def [symmetric] split_def)
      (simp add: s6_def s7_def s8_def)
  have f1: "loop_frame st s1" by (simp add: s1_def loop_frame_def)
  have f2: "loop_frame s1 s2" unfolding s2_def by (rule form_G_from_PK_frame)
  have f3: "loop_frame s2 s3" unfolding s3_def by (rule form_F_frame)
  have f4: "loop_frame s3 s4" unfolding s4_def by (simp add: save_fock_frame loop_frame_refl)
  have f5: "loop_frame s4 s5" by (simp add: s5_def loop_frame_def)
  have f6: "loop_frame s5 s6" unfolding s6_def by (simp add: diis_frame loop_frame_refl)
  have f7: "loop_frame s6 s7" unfolding s7_def by (rule form_C_frame)
  have f8: "loop_frame s7 s8" unfolding s8_def by (rule form_D_frame)
  have frame: "loop_frame st s8"
    using f1 f2 f3 f4 f5 f6 f7 f8 by (simp add: loop_frame_def)
  have E8: "E_' s8 = E_' s6" "Eold_' s8 = Eold_' s6"
    by (simp_all add: s8_def s7_def form_D_frame form_C_frame)
  have Eold: "Eold_' s6 = E_' st"
    by (simp add: s6_def s5_def s4_def s3_def s2_def s1_def diis_frame save_fock_frame
        form_F_frame form_G_from_PK_frame)
  have d3: "diis_same st s3"
    using form_G_from_PK_frame(2) [of s1] form_F_frame(2) [of s2]
    by (simp add: diis_same_def s3_def s2_def s1_def)
  have d4: "diis_manager_' s4 =
               (if diis_enabled_' opts \<and> \<not> initialized_diis_manager_' st
                then \<lparr>diis_capacity = max_diis_vectors_' opts, diis_history = []\<rparr>
                else diis_manager_' st)
           \<and> initialized_diis_manager_' s4 = (initialized_diis_manager_' st \<or> diis_enabled_' opts)"
    using d3 by (auto simp: s4_def save_fock_def diis_same_def)
  have d8: "diis_same s4 s8"
    using diis_frame(2) [of s5 ext] form_C_frame(2) [of s6 ext] form_D_frame(2) [of s7]
    by (simp add: diis_same_def s8_def s7_def s6_def s5_def)
  have E6: "E_' s6 = compute_E s4"
    by (simp add: s6_def s5_def diis_frame)
  have z: "E_' s6 = nuclearrep_' st" if "Dc_' st = mat_zero \<and> Do_' st = mat_zero"
  proof -
    have "Dc_' s4 = mat_zero" "Do_' s4 = mat_zero" "nuclearrep_' s4 = nuclearrep_' st"
      using that by (simp_all add: s4_def s3_def s2_def s1_def first_energy_frame)
    then show ?thesis
      by (simp add: E6 compute_E_zero_density)
  qed
  show ?thesis
    using eq frame E8 Eold d4 d8 b_def z
    by (intro exI [of _ s8] exI [of _ "E_' s6"] exI [of _ b]) (simp add: diis_same_def)
qed

lemma scf_iteration_sinks:
  assumes "scf_iteration ext opts iter (st, io) = Inr (st', io')"
  shows "chkpt io' = chkpt io \<and> psio_32 io' = psio_32 io"
  using assms unfolding scf_iteration_def
  by (auto simp: Let_def split_def split: sum.splits if_splits)

lemma scf_iterations_PK:
  assumes "scf_type_' st = ''PK''"
  shows "\<exists>n st' io'.
           scf_iterations ext opts iter (st, io) = Inr (test_convergency opts st', n, st', io')
           \<and> loop_frame st st' \<and> iter < n \<and> n \<le> max (iter + 1) (maxiter_' opts)
           \<and> (\<not> test_convergency opts st' \<longrightarrow> n = max (iter + 1) (maxiter_' opts))
           \<and> chkpt io' = chkpt io \<and> psio_32 io' = psio_32 io
           \<and> length (filter is_Iteration (outfile io')) =
                length (filter is_Iteration (outfile io)) + nat (n - iter)
           \<and> diis_manager_' st' =
               (if diis_enabled_' opts \<and> \<not> initialized_diis_manager_' st
                then \<lparr>diis_capacity = max_diis_vectors_' opts, diis_history = []\<rparr>
                else diis_manager_' st)
           \<and> initialized_diis_manager_' st' = (initialized_diis_manager_' st \<or> diis_enabled_' opts)
           \<and> (Dc_' st = mat_zero \<and> Do_' st = mat_zero
                \<and> \<bar>nuclearrep_' st - E_' st\<bar> < energy_threshold_' opts \<longrightarrow>
                  n = iter + 1 \<and> test_convergency opts st')"
  using assms
proof (induction "nat (maxiter_' opts - iter)" arbitrary: iter st io rule: less_induct)
  case less
  obtain st1 E d where it: "scf_iteration ext opts (iter + 1) (st, io) =
        Inr (st1, io\<lparr>outfile := outfile io @ [Iteration (iter + 1) E (E - E_' st) d]\<rparr>)"
    and fr: "loop_frame st st1"
    and hist: "diis_manager_' st1 =
               (if diis_enabled_' opts \<and> \<not> initialized_diis_manager_' st
                then \<lparr>diis_capacity = max_diis_vectors_' opts, diis_history = []\<rparr>
                else diis_manager_' st)"
      "initialized_diis_manager_' st1 = (initialized_diis_manager_' st \<or> diis_enabled_' opts)"
    and first: "Dc_' st = mat_zero \<and> Do_' st = mat_zero \<longrightarrow> E = nuclearrep_' st"
    and E1: "E_' st1 = E" "Eold_' st1 = E_' st"
    using scf_iteration_PK [OF less.prems, of ext opts "iter + 1" io] by blast
  have conv1: "test_convergency opts st1"
    if "Dc_' st = mat_zero \<and> Do_' st = mat_zero
        \<and> \<bar>nuclearrep_' st - E_' st\<bar> < energy_threshold_' opts"
    using that first E1 by (simp add: test_convergency_def Let_def)
  let ?io1 = "io\<lparr>outfile := outfile io @ [Iteration (iter + 1) E (E - E_' st) d]\<rparr>"
  show ?case
  proof (cases "\<not> test_convergency opts st1 \<and> iter + 1 < maxiter_' opts")
    case True
    have eq: "scf_iterations ext opts iter (st, io) = scf_iterations ext opts (iter + 1) (st1, ?io1)"
      by (subst scf_iterations.simps) (simp add: it True)
    have pk1: "scf_type_' st1 = ''PK''"
      using fr less.prems by (simp add: loop_frame_def)
    have "nat (maxiter_' opts - (iter + 1)) < nat (maxiter_' opts - iter)"
      using True by simp
    from less.hyps [OF this pk1, of ?io1]
    obtain n st' io' where r:
      "scf_iterations ext opts (iter + 1) (st1, ?io1) = Inr (test_convergency opts st', n, st', io')"
      "loop_frame st1 st'" "iter + 1 < n" "n \<le> max (iter + 1 + 1) (maxiter_' opts)"
      "\<not> test_convergency opts st' \<longrightarrow> n = max (iter + 1 + 1) (maxiter_' opts)"
      "chkpt io' = chkpt ?io1" "psio_32 io' = psio_32 ?io1"
      "length (filter is_Iteration (outfile io')) =
         length (filter is_Iteration (outfile ?io1)) + nat (n - (iter + 1))"
      "diis_manager_' st' =
               (if diis_enabled_' opts \<and> \<not> initialized_diis_manager_' st1
                then \<lparr>diis_capacity = max_diis_vectors_' opts, diis_history = []\<rparr>
                else diis_manager_' st1)"
      "initialized_diis_manager_' st' = (initialized_diis_manager_' st1 \<or> diis_enabled_' opts)"
      by blast
    have m: "max (iter + 1 + 1) (maxiter_' opts) = max (iter + 1) (maxiter_' opts)"
      using True by simp
    have "length (filter is_Iteration (outfile io')) =
         length (filter is_Iteration (outfile io)) + nat (n - iter)"
      using r(8) r(3) by simp
    moreover have "loop_frame st st'"
      using fr r(2) by (rule loop_frame_trans)
    ultimately show ?thesis
      using r hist True conv1 unfolding eq m
      by (intro exI [of _ n] exI [of _ st'] exI [of _ io']) auto
  next
    case False
    have eq: "scf_iterations ext opts iter (st, io) =
        Inr (test_convergency opts st1, iter + 1, st1, ?io1)"
      using False by (subst scf_iterations.simps) (auto simp: it)
    show ?thesis
      using False fr hist conv1 unfolding eq
      by (intro exI [of _ "iter + 1"] exI [of _ st1] exI [of _ ?io1]) auto
  qed
qed

lemma scf_iterations_sinks:
  assumes "scf_iterations ext opts iter (st, io) = Inr (conv, n, st', io')"
  shows "chkpt io' = chkpt io \<and> psio_32 io' = psio_32 io \<and> conv = test_convergency opts st'"
  using assms
proof (induction "nat (maxiter_' opts - iter)" arbitrary: iter st io rule: less_induct)
  case less
  from less.prems obtain st1 io1 where it: "scf_iteration ext opts (iter + 1) (st, io) = Inr (st1, io1)"
    by (subst (asm) scf_iterations.simps) (auto split: sum.splits)
  have s1: "chkpt io1 = chkpt io \<and> psio_32 io1 = psio_32 io"
    using it by (rule scf_iteration_sinks)
  show ?case
  proof (cases "\<not> test_convergency opts st1 \<and> iter + 1 < maxiter_' opts")
    case True
    have "scf_iterations ext opts (iter + 1) (st1, io1) = Inr (conv, n, st', io')"
      using less.prems by (subst (asm) scf_iterations.simps) (simp add: it True)
    moreover have "nat (maxiter_' opts - (iter + 1)) < nat (maxiter_' opts - iter)"
      using True by simp
    ultimately have "chkpt io' = chkpt io1 \<and> psio_32 io' = psio_32 io1
        \<and> conv = test_convergency opts st'"
      using less.hyps by blast
    with s1 show ?thesis by simp
  next
    case False
    have "Inr (test_convergency opts st1, iter + 1, st1, io1) = Inr (conv, n, st', io')"
      using less.prems False by (subst (asm) scf_iterations.simps) (auto simp: it)
    with s1 show ?thesis by auto
  qed
qed

lemma upt_small: "[0..<2] = [0, 1]" "[0..<3] = [0, 1, 2]" "[1..<2] = [1]" "[1..<3] = [1, 2]"
  by (simp_all add: upt_rec)

lemma save_information_sinks:
  "length (chkpt (save_information ext st io)) = length (chkpt io) + 17"
  "psio_32 (save_information ext st io) = psio_32 io @ [Feff_' st]"
  "outfile (save_information ext st io) = outfile io"
  "Wt_etot (E_' st) \<in> set (chkpt (save_information ext st io))"
  by (simp_all add: save_information_def Let_def)

lemma save_information_chkpt_cong:
  "chkpt io1 = chkpt io2 \<Longrightarrow> chkpt (save_information ext st io1) = chkpt (save_information ext st io2)"
  by (simp add: save_information_def Let_def)

lemma header_sinks_simps:
  "chkpt (header_sinks read io) = chkpt io" "psio_32 (header_sinks read io) = psio_32 io"
  "length (filter is_Iteration (outfile (header_sinks read io))) = length (filter is_Iteration (outfile io))"
  by (simp_all add: header_sinks_def Let_def)

lemma compute_energy_unfold:
  assumes init: "compute_energy_init ext st = Inr (read, st1)"
    and loop: "scf_iterations ext opts 0 (st1, header_sinks read io) = Inr (conv, n, st', io')"
  shows "compute_energy ext opts (st, io) =
     Inr (if conv
          then \<lparr>ret_energy = E_' st', ret_converged = conv, ret_iter = n, ret_state = st',
                ret_sinks = save_information ext st'
                   (io'\<lparr>outfile := outfile io' @ [Text ''  Energy converged.'']\<rparr>)\<rparr>
          else \<lparr>ret_energy = 0, ret_converged = conv, ret_iter = n, ret_state = st',
                ret_sinks = io'\<lparr>outfile := outfile io' @ [Text ''  Failed to converge.'']\<rparr>\<rparr>)"
  using loop unfolding compute_energy_def header_sinks_def
  by (simp add: init Let_def free_B_def)

lemma compute_energy_Inl_init:
  "compute_energy_init ext st = Inl e \<Longrightarrow> compute_energy ext opts (st, io) = Inl e"
  by (simp add: compute_energy_def)

lemma compute_energy_Inl_loop:
  assumes "compute_energy_init ext st = Inr (read, st1)"
    and "scf_iterations ext opts 0 (st1, header_sinks read io) = Inl e"
  shows "compute_energy ext opts (st, io) = Inl e"
  using assms(2) unfolding compute_energy_def header_sinks_def
  by (simp add: assms(1) Let_def)

lemma compute_energy_Inr:
  assumes "compute_energy ext opts (st, io) = Inr r"
  obtains read st1 conv n st' io' where
    "compute_energy_init ext st = Inr (read, st1)"
    "scf_iterations ext opts 0 (st1, header_sinks read io) = Inr (conv, n, st', io')"
proof (cases "compute_energy_init ext st")
  case (Inl e)
  then show ?thesis using assms by (simp add: compute_energy_Inl_init)
next
  case (Inr p)
  obtain read st1 where p: "p = (read, st1)" by (cases p)
  show ?thesis
  proof (cases "scf_iterations ext opts 0 (st1, header_sinks read io)")
    case (Inl e)
    then show ?thesis using assms Inr p by (simp add: compute_energy_Inl_loop)
  next
    case loop: (Inr x)
    obtain conv n st' io' where "x = (conv, n, st', io')" by (cases x)
    then show ?thesis using that Inr p loop by simp
  qed
qed

lemma compute_energy_result:
  assumes "compute_energy ext opts (st, io) = Inr r"
  shows "ret_converged r = test_convergency opts (ret_state r)
       \<and> (ret_converged r \<longrightarrow>
            ret_energy r = E_' (ret_state r)
            \<and> chkpt (ret_sinks r) = chkpt (save_information ext (ret_state r) io)
            \<and> psio_32 (ret_sinks r) = psio_32 io @ [Feff_' (ret_state r)]
            \<and> last (outfile (ret_sinks r)) = Text ''  Energy converged.'')
       \<and> (\<not> ret_converged r \<longrightarrow>
            ret_energy r = 0 \<and> chkpt (ret_sinks r) = chkpt io \<and> psio_32 (ret_sinks r) = psio_32 io
            \<and> last (outfile (ret_sinks r)) = Text ''  Failed to converge.'')"
proof -
  from assms obtain read st1 conv n st' io' where
    init: "compute_energy_init ext st = Inr (read, st1)" and
    loop: "scf_iterations ext opts 0 (st1, header_sinks read io) = Inr (conv, n, st', io')"
    by (rule compute_energy_Inr)
  have s: "chkpt io' = chkpt io" "psio_32 io' = psio_32 io" "conv = test_convergency opts st'"
    using scf_iterations_sinks [OF loop] by (simp_all add: header_sinks_simps)
  have c: "chkpt (save_information ext st' (io'\<lparr>outfile := outfile io' @ [Text ''  Energy converged.'']\<rparr>))
      = chkpt (save_information ext st' io)"
    by (rule save_information_chkpt_cong) (simp add: s)
  show ?thesis
    using assms unfolding compute_energy_unfold [OF init loop]
    by (cases conv) (auto simp: s c save_information_sinks)
qed

lemma compute_energy_PK:
  assumes init: "compute_energy_init ext st = Inr (read, st1)" and pk: "scf_type_' st1 = ''PK''"
  shows "\<exists>r. compute_energy ext opts (st, io) = Inr r
       \<and> 1 \<le> ret_iter r \<and> ret_iter r \<le> max 1 (maxiter_' opts)
       \<and> length (filter is_Iteration (outfile (ret_sinks r))) =
           length (filter is_Iteration (outfile io)) + nat (ret_iter r)
       \<and> ret_converged r = (\<bar>E_' (ret_state r) - Eold_' (ret_state r)\<bar> < energy_threshold_' opts)
       \<and> (ret_converged r \<longrightarrow> ret_energy r = E_' (ret_state r))
       \<and> (\<not> ret_converged r \<longrightarrow>
            ret_iter r = max 1 (maxiter_' opts) \<and> ret_energy r = 0
            \<and> last (outfile (ret_sinks r)) = Text ''  Failed to converge.'')
       \<and> loop_frame st1 (ret_state r)
       \<and> diis_manager_' (ret_state r) =
               (if diis_enabled_' opts \<and> \<not> initialized_diis_manager_' st1
                then \<lparr>diis_capacity = max_diis_vectors_' opts, diis_history = []\<rparr>
                else diis_manager_' st1)
       \<and> (Dc_' st1 = mat_zero \<and> Do_' st1 = mat_zero
            \<and> \<bar>nuclearrep_' st1 - E_' st1\<bar> < energy_threshold_' opts \<longrightarrow>
              ret_iter r = 1 \<and> ret_converged r)"
proof -
  from scf_iterations_PK [OF pk, of ext opts 0 "header_sinks read io"]
  obtain n st' io' where
    loop: "scf_iterations ext opts 0 (st1, header_sinks read io) = Inr (test_convergency opts st', n, st', io')"
    and p: "loop_frame st1 st'" "0 < n" "n \<le> max (0 + 1) (maxiter_' opts)"
      "\<not> test_convergency opts st' \<longrightarrow> n = max (0 + 1) (maxiter_' opts)"
      "length (filter is_Iteration (outfile io')) =
         length (filter is_Iteration (outfile (header_sinks read io))) + nat (n - 0)"
      "diis_manager_' st' =
               (if diis_enabled_' opts \<and> \<not> initialized_diis_manager_' st1
                then \<lparr>diis_capacity = max_diis_vectors_' opts, diis_history = []\<rparr>
                else diis_manager_' st1)"
      "Dc_' st1 = mat_zero \<and> Do_' st1 = mat_zero
                \<and> \<bar>nuclearrep_' st1 - E_' st1\<bar> < energy_threshold_' opts \<longrightarrow>
                  n = 0 + 1 \<and> test_convergency opts st'"
    by blast
  have t: "test_convergency opts st' = (\<bar>E_' st' - Eold_' st'\<bar> < energy_threshold_' opts)"
    by (simp add: test_convergency_def Let_def)
  show ?thesis
    unfolding compute_energy_unfold [OF init loop]
    using p t by (cases "test_convergency opts st'") (auto simp: save_information_sinks header_sinks_simps)
qed

lemma form_PK_example:
  "form_PK example_rohf =
     Inr (example_rohf\<lparr>pk_' := [1 / 4, 0, 0, 0, 0, 0], k_' := [- 1 / 4, 0, 0, 0, 0, 0]\<rparr>)"
  by (simp add: form_PK_def form_PK_halve_def form_PK_buffer_def form_PK_integral_def upt_small
      form_PK_J_def form_PK_K_def example_rohf_def INDEX2_def Let_def)

lemma form_PK_read_filled:
  "form_PK_read (so_tei filled_rohf) filled_rohf =
     Inr (filled_rohf\<lparr>pk_' := [3 / 2, 2, 3, 4, 5, 6], k_' := [11 / 2, 5, 4, 3, 2, 1]\<rparr>)"
  by (simp add: filled_rohf_def form_PK_buffer_def form_PK_integral_def upt_small
      form_PK_J_def form_PK_K_def example_rohf_def INDEX2_def Let_def)

text \<open>
  C8. When the loop of \<open>form_PK\<close> over the buffers of the integral file \<open>so_tei\<close> ends,
  with the state \<open>mid\<close>, and the supermatrices hold the whole triangle of pairs,
  \<open>form_PK\<close> returns, and in the state it returns the entry of PK and of K at the index
  of the pair of pairs \<open>(bra, ket)\<close>, both below \<open>pk_pairs\<close>, is the entry of \<open>mid\<close> times
  0.5 when \<open>bra = ket\<close> and the entry of \<open>mid\<close> itself when \<open>bra \<noteq> ket\<close>: the diagonal
  entries are halved once, after the whole file has been added, and the others are
  left as the file made them. No member other than PK and K differs from the state
  \<open>form_PK\<close> was called in.
\<close>

theorem form_PK_halve_diagonal:
  assumes "form_PK_read (so_tei st) st = Inr mid"
    and "bra < pk_pairs_' st" and "ket < pk_pairs_' st"
    and "tri (pk_pairs_' st) \<le> length (pk_' st)" and "tri (pk_pairs_' st) \<le> length (k_' st)"
  shows "case form_PK st of
           Inl e \<Rightarrow> False
         | Inr st' \<Rightarrow>
             pk_' st' ! INDEX2 bra ket =
               (if bra = ket then pk_' mid ! INDEX2 bra ket * 0.5 else pk_' mid ! INDEX2 bra ket)
           \<and> k_' st' ! INDEX2 bra ket =
               (if bra = ket then k_' mid ! INDEX2 bra ket * 0.5 else k_' mid ! INDEX2 bra ket)
           \<and> st' = st\<lparr>pk_' := pk_' st', k_' := k_' st'\<rparr>"
proof -
  from form_PK_read_keeps [OF assms(1)] obtain p k' where
    mid: "mid = st\<lparr>pk_' := p, k_' := k'\<rparr>"
    "length p = length (pk_' st)" "length k' = length (k_' st)" by blast
  have pairs: "pk_pairs_' mid = pk_pairs_' st" by (simp add: mid(1))
  have "INDEX2 bra ket < tri (pk_pairs_' st)"
    using assms(2,3) by (rule INDEX2_less_tri)
  then have n: "INDEX2 bra ket < length (pk_' mid)" "INDEX2 bra ket < length (k_' mid)"
    using assms(4,5) mid by simp_all
  have f: "form_PK st = Inr (form_PK_halve mid)"
    by (simp add: form_PK_def assms(1))
  have h: "form_PK_halve mid =
      mid\<lparr>pk_' := halved (pk_pairs_' st) (pk_' mid), k_' := halved (pk_pairs_' st) (k_' mid)\<rparr>"
    by (simp only: form_PK_halve_closed pairs)
  have "pk_' (form_PK_halve mid) ! INDEX2 bra ket =
      (if bra = ket then pk_' mid ! INDEX2 bra ket * 0.5 else pk_' mid ! INDEX2 bra ket)"
    using halved_nth [OF assms(2) n(1)] by (simp add: h)
  moreover have "k_' (form_PK_halve mid) ! INDEX2 bra ket =
      (if bra = ket then k_' mid ! INDEX2 bra ket * 0.5 else k_' mid ! INDEX2 bra ket)"
    using halved_nth [OF assms(2) n(2)] by (simp add: h)
  moreover have "form_PK_halve mid = st\<lparr>pk_' := pk_' (form_PK_halve mid), k_' := k_' (form_PK_halve mid)\<rparr>"
    by (subst h, subst mid(1)) (simp add: h)
  ultimately show ?thesis by (simp only: f sum.case) 
qed

theorem form_PK_halve_diagonal_witness:
  "form_PK_read (so_tei filled_rohf) filled_rohf =
     Inr (filled_rohf\<lparr>pk_' := [3 / 2, 2, 3, 4, 5, 6], k_' := [11 / 2, 5, 4, 3, 2, 1]\<rparr>)
   \<and> (0::nat) < pk_pairs_' filled_rohf \<and> (1::nat) < pk_pairs_' filled_rohf
   \<and> tri (pk_pairs_' filled_rohf) \<le> length (pk_' filled_rohf)
   \<and> tri (pk_pairs_' filled_rohf) \<le> length (k_' filled_rohf)
   \<and> (case form_PK filled_rohf of
         Inl e \<Rightarrow> False
       | Inr st' \<Rightarrow> pk_' st' ! INDEX2 0 0 = 3 / 4 \<and> k_' st' ! INDEX2 0 0 = 11 / 4
           \<and> pk_' st' ! INDEX2 1 1 = 3 / 2 \<and> k_' st' ! INDEX2 1 1 = 2
           \<and> pk_' st' ! INDEX2 1 0 = 2 \<and> k_' st' ! INDEX2 1 0 = 5)"
proof -
  have facts: "(0::nat) < pk_pairs_' filled_rohf" "(1::nat) < pk_pairs_' filled_rohf"
    "tri (pk_pairs_' filled_rohf) \<le> length (pk_' filled_rohf)"
    "tri (pk_pairs_' filled_rohf) \<le> length (k_' filled_rohf)"
    by (simp_all add: filled_rohf_def example_rohf_def tri_def)
  have idx: "INDEX2 0 0 = 0" "INDEX2 (Suc 0) (Suc 0) = 2" "INDEX2 (Suc 0) 0 = 1"
    by (simp_all add: INDEX2_def)
  show ?thesis
    using form_PK_halve_diagonal [OF form_PK_read_filled facts(1) facts(1) facts(3,4)]
      form_PK_halve_diagonal [OF form_PK_read_filled facts(2) facts(2) facts(3,4)]
      form_PK_halve_diagonal [OF form_PK_read_filled facts(2) facts(1) facts(3,4)]
      form_PK_read_filled facts
    by (cases "form_PK filled_rohf") (simp_all add: idx)
qed

lemma example_init:
  "compute_energy_init example_collab example_rohf = Inr (False, built_twice)"
  by (simp add: compute_energy_init_def example_collab_def form_PK_def form_PK_halve_def
      form_PK_buffer_def form_PK_integral_def upt_small built_twice_def
      form_PK_J_def form_PK_K_def example_rohf_def INDEX2_def Let_def)

lemma built_twice_simps:
  "scf_type_' built_twice = ''PK''" "initialized_diis_manager_' built_twice = False"
  "Dc_' built_twice = mat_zero" "Do_' built_twice = mat_zero"
  "nuclearrep_' built_twice = 0" "E_' built_twice = 0"
  by (simp_all add: built_twice_def example_rohf_def)

text \<open>
  C2. One call of \<open>form_PK\<close> on the small solver, whose file holds the integral
  (00|00) = 1, leaves 1/4 in the first entry of PK and -1/4 in the first entry of K.
  The work before the loop of \<open>compute_energy\<close> leaves 3/8 and -3/8 there: \<open>form_PK\<close>
  runs twice, reads the file twice and adds the second pass to the result of the first.
\<close>

theorem compute_energy_builds_PK_twice:
  "(case form_PK example_rohf of
      Inl e \<Rightarrow> False
    | Inr st \<Rightarrow> pk_' st = [1 / 4, 0, 0, 0, 0, 0] \<and> k_' st = [- 1 / 4, 0, 0, 0, 0, 0])
   \<and> (case compute_energy_init example_collab example_rohf of
      Inl e \<Rightarrow> False
    | Inr (read, st) \<Rightarrow> pk_' st = [3 / 8, 0, 0, 0, 0, 0] \<and> k_' st = [- 3 / 8, 0, 0, 0, 0, 0])"
  by (simp add: form_PK_example example_init built_twice_def)

text \<open>The loop and the return of \<open>compute_energy\<close> leave both supermatrices as the
  work before the loop has built them.\<close>

lemma compute_energy_loop_keeps_PK:
  assumes "compute_energy_init ext st = Inr (read, st1)" and "scf_type_' st1 = ''PK''"
  shows "\<exists>r. compute_energy ext opts (st, io) = Inr r
           \<and> pk_' (ret_state r) = pk_' st1 \<and> k_' (ret_state r) = k_' st1"
  using compute_energy_PK [OF assms, of opts io] by (auto simp: loop_frame_def)

text \<open>With the strategy DIRECT or OUT_OF_CORE the first iteration ends the process.\<close>

lemma compute_energy_aborts:
  assumes "compute_energy_init ext st = Inr (read, st1)"
    and "scf_type_' st1 = ''DIRECT'' \<or> scf_type_' st1 = ''OUT_OF_CORE''"
  shows "\<exists>msg. compute_energy ext opts (st, io) = Inl (Abort msg)"
proof -
  have "\<exists>msg. scf_iteration ext opts (0 + 1) (st1, header_sinks read io) = Inl (Abort msg)"
    using assms(2)
    by (auto simp: scf_iteration_def Let_def form_G_def form_G_from_direct_integrals_def)
  then obtain msg where
    it: "scf_iteration ext opts (0 + 1) (st1, header_sinks read io) = Inl (Abort msg)"
    by blast
  have "scf_iterations ext opts 0 (st1, header_sinks read io) = Inl (Abort msg)"
    using it by (subst scf_iterations.simps) simp
  then show ?thesis
    using compute_energy_Inl_loop [OF assms(1)] by blast
qed

text \<open>
  C3, as the code has it. When the work before the loop returns and the strategy is PK,
  \<open>compute_energy\<close> returns. It has run at least one and at most \<open>max 1 N\<close> iterations,
  \<open>N\<close> the iteration cap, one line of output each. The run is converged exactly when
  the last two energies differ by less than the threshold, and then the energy is
  returned; otherwise exactly \<open>max 1 N\<close> iterations have run, the number 0 is returned
  and the last line of the output reports the failure.
\<close>

theorem compute_energy_iteration_cap:
  assumes "compute_energy_init ext st = Inr (read, st1)" and "scf_type_' st1 = ''PK''"
  shows "\<exists>r. compute_energy ext opts (st, io) = Inr r
       \<and> 1 \<le> ret_iter r \<and> ret_iter r \<le> max 1 (maxiter_' opts)
       \<and> length (filter is_Iteration (outfile (ret_sinks r))) =
           length (filter is_Iteration (outfile io)) + nat (ret_iter r)
       \<and> ret_converged r = (\<bar>E_' (ret_state r) - Eold_' (ret_state r)\<bar> < energy_threshold_' opts)
       \<and> (ret_converged r \<longrightarrow> ret_energy r = E_' (ret_state r))
       \<and> (\<not> ret_converged r \<longrightarrow>
            ret_iter r = max 1 (maxiter_' opts) \<and> ret_energy r = 0
            \<and> last (outfile (ret_sinks r)) = Text ''  Failed to converge.'')"
  using compute_energy_PK [OF assms, of opts io] by blast

theorem compute_energy_iteration_cap_witness:
  "compute_energy_init example_collab example_rohf = Inr (False, built_twice)
   \<and> scf_type_' built_twice = ''PK''
   \<and> (case compute_energy example_collab example_options (example_rohf, example_sinks) of
        Inl e \<Rightarrow> False
      | Inr r \<Rightarrow> ret_iter r = 3 \<and> \<not> ret_converged r \<and> ret_energy r = 0
          \<and> length (filter is_Iteration (outfile (ret_sinks r))) = 3)
   \<and> (case compute_energy example_collab (example_options\<lparr>energy_threshold_' := 1\<rparr>)
             (example_rohf, example_sinks) of
        Inl e \<Rightarrow> False
      | Inr r \<Rightarrow> ret_iter r = 1 \<and> ret_converged r \<and> ret_energy r = E_' (ret_state r)
          \<and> length (filter is_Iteration (outfile (ret_sinks r))) = 1)"
proof -
  from compute_energy_iteration_cap [OF example_init built_twice_simps(1), of example_options example_sinks]
  obtain r where r: "compute_energy example_collab example_options (example_rohf, example_sinks) = Inr r"
    "length (filter is_Iteration (outfile (ret_sinks r))) =
           length (filter is_Iteration (outfile example_sinks)) + nat (ret_iter r)"
    "ret_converged r = (\<bar>E_' (ret_state r) - Eold_' (ret_state r)\<bar> < energy_threshold_' example_options)"
    "\<not> ret_converged r \<longrightarrow>
            ret_iter r = max 1 (maxiter_' example_options) \<and> ret_energy r = 0
            \<and> last (outfile (ret_sinks r)) = Text ''  Failed to converge.''"
    by blast
  have n: "\<not> ret_converged r"
    by (simp add: r(3) example_options_def)
  let ?opts = "example_options\<lparr>energy_threshold_' := 1\<rparr>"
  from compute_energy_iteration_cap [OF example_init built_twice_simps(1), of ?opts example_sinks]
  obtain r' where r': "compute_energy example_collab ?opts (example_rohf, example_sinks) = Inr r'"
    "length (filter is_Iteration (outfile (ret_sinks r'))) =
           length (filter is_Iteration (outfile example_sinks)) + nat (ret_iter r')"
    "ret_converged r' \<longrightarrow> ret_energy r' = E_' (ret_state r')"
    by blast
  from compute_energy_PK [OF example_init built_twice_simps(1), of ?opts example_sinks] r'(1)
  have c: "ret_iter r' = 1 \<and> ret_converged r'"
    by (auto simp: example_options_def built_twice_simps)
  show ?thesis
    using r n r' c
    by (simp add: example_init built_twice_simps example_options_def example_sinks_def)
qed

text \<open>
  C3, as the claim has it. With the cap 0 and a threshold that no difference is below,
  the small solver fails after one iteration, which is more than the cap: the body of
  the loop runs before the cap is looked at.
\<close>

theorem compute_energy_iteration_cap_counterexample:
  "(case compute_energy example_collab (example_options\<lparr>maxiter_' := 0\<rparr>) (example_rohf, example_sinks) of
      Inl e \<Rightarrow> False
    | Inr r \<Rightarrow> \<not> ret_converged r \<and> ret_iter r = 1
        \<and> maxiter_' (example_options\<lparr>maxiter_' := 0\<rparr>) < ret_iter r)"
proof -
  let ?opts = "example_options\<lparr>maxiter_' := 0\<rparr>"
  from compute_energy_PK [OF example_init built_twice_simps(1), of ?opts example_sinks]
  obtain r where r: "compute_energy example_collab ?opts (example_rohf, example_sinks) = Inr r"
    "ret_converged r = (\<bar>E_' (ret_state r) - Eold_' (ret_state r)\<bar> < energy_threshold_' ?opts)"
    "\<not> ret_converged r \<longrightarrow> ret_iter r = max 1 (maxiter_' ?opts)"
    by blast
  have "\<not> ret_converged r"
    by (simp add: r(2) example_options_def)
  with r show ?thesis
    by (simp add: example_options_def)
qed

text \<open>
  C10. For every run of \<open>compute_energy\<close> that returns: when it is not converged the
  number returned is 0 and neither the checkpoint nor file 32 has been written; when it
  is converged the checkpoint holds what \<open>save_information\<close> writes for the final
  state and file 32 the effective Fock matrix; so the checkpoint has been written if
  and only if the run is converged, which is the outcome of the last convergence test.
\<close>

theorem compute_energy_failure_sentinel:
  assumes "compute_energy ext opts (st, io) = Inr r"
  shows "(\<not> ret_converged r \<longrightarrow>
            ret_energy r = 0 \<and> chkpt (ret_sinks r) = chkpt io \<and> psio_32 (ret_sinks r) = psio_32 io)
       \<and> (ret_converged r \<longrightarrow>
            chkpt (ret_sinks r) = chkpt (save_information ext (ret_state r) io)
            \<and> psio_32 (ret_sinks r) = psio_32 io @ [Feff_' (ret_state r)])
       \<and> (ret_converged r \<longleftrightarrow> chkpt (ret_sinks r) \<noteq> chkpt io)
       \<and> ret_converged r = test_convergency opts (ret_state r)"
proof -
  have "chkpt (save_information ext (ret_state r) io) \<noteq> chkpt io"
    using save_information_sinks(1) [of ext "ret_state r" io] by auto
  then show ?thesis
    using compute_energy_result [OF assms] by auto
qed

theorem compute_energy_failure_sentinel_witness:
  "(\<exists>r. compute_energy example_collab example_options (example_rohf, example_sinks) = Inr r)
   \<and> (case compute_energy example_collab example_options (example_rohf, example_sinks) of
        Inl e \<Rightarrow> False
      | Inr r \<Rightarrow> \<not> ret_converged r \<and> ret_energy r = 0 \<and> chkpt (ret_sinks r) = []
          \<and> psio_32 (ret_sinks r) = [])
   \<and> (case compute_energy example_collab (example_options\<lparr>energy_threshold_' := 1\<rparr>)
             (example_rohf, example_sinks) of
        Inl e \<Rightarrow> False
      | Inr r \<Rightarrow> ret_converged r \<and> length (chkpt (ret_sinks r)) = 17
          \<and> Wt_etot (E_' (ret_state r)) \<in> set (chkpt (ret_sinks r))
          \<and> psio_32 (ret_sinks r) = [Feff_' (ret_state r)])"
proof -
  from compute_energy_PK [OF example_init built_twice_simps(1), of example_options example_sinks]
  obtain r where r: "compute_energy example_collab example_options (example_rohf, example_sinks) = Inr r"
    "ret_converged r = (\<bar>E_' (ret_state r) - Eold_' (ret_state r)\<bar> < energy_threshold_' example_options)"
    by blast
  have n: "\<not> ret_converged r"
    by (simp add: r(2) example_options_def)
  let ?opts = "example_options\<lparr>energy_threshold_' := 1\<rparr>"
  from compute_energy_PK [OF example_init built_twice_simps(1), of ?opts example_sinks]
  obtain r' where r': "compute_energy example_collab ?opts (example_rohf, example_sinks) = Inr r'"
    "Dc_' built_twice = mat_zero \<and> Do_' built_twice = mat_zero
            \<and> \<bar>nuclearrep_' built_twice - E_' built_twice\<bar> < energy_threshold_' ?opts \<longrightarrow>
              ret_iter r' = 1 \<and> ret_converged r'"
    by blast
  have c: "ret_converged r'"
    using r'(2) by (simp add: example_options_def built_twice_simps)
  show ?thesis
    using compute_energy_failure_sentinel [OF r(1)] n r(1)
      compute_energy_failure_sentinel [OF r'(1)] c r'(1)
    by (simp add: example_sinks_def save_information_sinks)
qed

text \<open>
  C9. The small solver with DIIS enabled, at least two vectors asked for and the cap 6
  runs six iterations; the sixth is one on which the extrapolation is called. After the
  run the manager has the capacity 4 and an empty history: \<open>save_fock\<close> has created the
  manager and has stored no entry in any iteration.
\<close>

theorem save_fock_stores_no_entry:
  "diis_enabled_' (example_options\<lparr>maxiter_' := 6\<rparr>)
   \<and> min_diis_vectors_' (example_options\<lparr>maxiter_' := 6\<rparr>) \<le> 6 \<and> (6::int) mod 6 = 0
   \<and> (case compute_energy example_collab (example_options\<lparr>maxiter_' := 6\<rparr>) (example_rohf, example_sinks) of
        Inl e \<Rightarrow> False
      | Inr r \<Rightarrow> ret_iter r = 6
          \<and> diis_manager_' (ret_state r) = \<lparr>diis_capacity = 4, diis_history = []\<rparr>)"
proof -
  let ?opts = "example_options\<lparr>maxiter_' := 6\<rparr>"
  from compute_energy_PK [OF example_init built_twice_simps(1), of ?opts example_sinks]
  obtain r where r: "compute_energy example_collab ?opts (example_rohf, example_sinks) = Inr r"
    "ret_converged r = (\<bar>E_' (ret_state r) - Eold_' (ret_state r)\<bar> < energy_threshold_' ?opts)"
    "\<not> ret_converged r \<longrightarrow> ret_iter r = max 1 (maxiter_' ?opts)"
    "diis_manager_' (ret_state r) =
               (if diis_enabled_' ?opts \<and> \<not> initialized_diis_manager_' built_twice
                then \<lparr>diis_capacity = max_diis_vectors_' ?opts, diis_history = []\<rparr>
                else diis_manager_' built_twice)"
    by blast
  have "\<not> ret_converged r"
    by (simp add: r(2) example_options_def)
  with r show ?thesis
    by (simp add: example_options_def built_twice_simps)
qed

section \<open>The contraction: proofs\<close>

lemma fold_concat: "fold f (concat xss) = fold (fold f) xss"
  by (induction xss) (simp_all add: fun_eq_iff)

lemma fold_pair_list:
  "fold (\<lambda>h. fold (\<lambda>p. fold (\<lambda>q. F h p q) [0..<Suc p]) [0..<dims ! h]) [0..<n] a =
   fold (\<lambda>(h, p, q). F h p q) (pair_list n dims) a"
  unfolding pair_list_def pair_block_def
  by (simp add: fold_concat fold_map comp_def del: upt_Suc)

lemma pair_block_Suc:
  "pair_block h (Suc d) = pair_block h d @ map (\<lambda>q. (h, d, q)) [0..<Suc d]"
  by (simp add: pair_block_def)

lemma length_pair_block: "length (pair_block h d) = tri d"
  by (induction d) (simp_all add: pair_block_Suc tri_Suc, simp add: pair_block_def tri_def)

lemma pair_block_nth:
  "k < tri d \<Longrightarrow> \<exists>p q. q \<le> p \<and> p < d \<and> k = tri p + q \<and> pair_block h d ! k = (h, p, q)"
proof (induction d)
  case 0
  then show ?case by (simp add: tri_def)
next
  case (Suc d)
  show ?case
  proof (cases "k < tri d")
    case True
    from Suc.IH [OF this] obtain p q where
      "q \<le> p" "p < d" "k = tri p + q" "pair_block h d ! k = (h, p, q)" by blast
    then show ?thesis using True
      by (intro exI [of _ p] exI [of _ q]) (simp add: pair_block_Suc nth_append length_pair_block)
  next
    case False
    then have "k - tri d \<le> d" "k = tri d + (k - tri d)"
      using Suc.prems by (simp_all add: tri_Suc)
    then show ?thesis using False
      by (intro exI [of _ d] exI [of _ "k - tri d"])
        (simp add: pair_block_Suc nth_append length_pair_block del: upt_Suc)
  qed
qed

lemma pair_list_Suc: "pair_list (Suc n) dims = pair_list n dims @ pair_block n (dims ! n)"
  by (simp add: pair_list_def)

lemma length_pair_list: "length (pair_list n dims) = pair_offset dims n"
  by (induction n) (simp_all add: pair_list_Suc length_pair_block pair_offset_def, simp add: pair_list_def)

lemma pair_offset_Suc: "pair_offset dims (Suc h) = pair_offset dims h + tri (dims ! h)"
  by (simp add: pair_offset_def)

lemma pair_offset_mono: "g \<le> h \<Longrightarrow> pair_offset dims g \<le> pair_offset dims h"
  by (induction h) (auto simp: pair_offset_Suc le_Suc_eq)

lemma pair_list_nth:
  "k < pair_offset dims n \<Longrightarrow>
   \<exists>h p q. h < n \<and> q \<le> p \<and> p < dims ! h \<and> k = pair_index dims h p q
           \<and> pair_list n dims ! k = (h, p, q)"
proof (induction n)
  case 0
  then show ?case by (simp add: pair_offset_def)
next
  case (Suc n)
  show ?case
  proof (cases "k < pair_offset dims n")
    case True
    from Suc.IH [OF this] obtain h p q where
      "h < n" "q \<le> p" "p < dims ! h" "k = pair_index dims h p q" "pair_list n dims ! k = (h, p, q)"
      by blast
    then show ?thesis using True
      by (intro exI [of _ h] exI [of _ p] exI [of _ q])
        (simp add: pair_list_Suc nth_append length_pair_list)
  next
    case False
    then have "k - pair_offset dims n < tri (dims ! n)"
      using Suc.prems by (simp add: pair_offset_Suc)
    from pair_block_nth [OF this, of n] obtain p q where
      "q \<le> p" "p < dims ! n" "k - pair_offset dims n = tri p + q"
      "pair_block n (dims ! n) ! (k - pair_offset dims n) = (n, p, q)" by blast
    then show ?thesis using False
      by (intro exI [of _ n] exI [of _ p] exI [of _ q])
        (simp add: pair_list_Suc nth_append length_pair_list pair_index_def)
  qed
qed

lemma pair_index_less:
  assumes "h < n" "q \<le> p" "p < dims ! h"
  shows "pair_index dims h p q < pair_offset dims n"
proof -
  have "tri p + q < tri (dims ! h)"
    using assms tri_row_less [of p "dims ! h"] by simp
  then have "pair_index dims h p q < pair_offset dims (Suc h)"
    by (simp add: pair_index_def pair_offset_Suc)
  also have "\<dots> \<le> pair_offset dims n"
    using assms(1) by (intro pair_offset_mono) simp
  finally show ?thesis .
qed

lemma pair_index_inj:
  assumes "q \<le> p" "p < dims ! h" "q' \<le> p'" "p' < dims ! h'"
    and eq: "pair_index dims h p q = pair_index dims h' p' q'"
  shows "h = h' \<and> p = p' \<and> q = q'"
proof -
  have a: "tri p + q < tri (dims ! h)" "tri p' + q' < tri (dims ! h')"
    using assms tri_row_less [of p "dims ! h"] tri_row_less [of p' "dims ! h'"] by simp_all
  have "\<not> h < h'"
  proof
    assume "h < h'"
    then have "pair_offset dims (Suc h) \<le> pair_offset dims h'" by (intro pair_offset_mono) simp
    then show False using a eq by (simp add: pair_index_def pair_offset_Suc)
  qed
  moreover have "\<not> h' < h"
  proof
    assume "h' < h"
    then have "pair_offset dims (Suc h') \<le> pair_offset dims h" by (intro pair_offset_mono) simp
    then show False using a eq by (simp add: pair_index_def pair_offset_Suc)
  qed
  ultimately have h: "h = h'" by simp
  then have "tri p + q = tri p' + q'" using eq by (simp add: pair_index_def)
  with tri_index_inj [of q p q' p'] assms h show ?thesis by simp
qed

lemma pair_list_at_index:
  assumes "h < n" "q \<le> p" "p < dims ! h"
  shows "pair_list n dims ! pair_index dims h p q = (h, p, q)"
proof -
  from pair_list_nth [OF pair_index_less [OF assms]] obtain h' p' q' where
    r: "h' < n" "q' \<le> p'" "p' < dims ! h'" "pair_index dims h p q = pair_index dims h' p' q'"
    "pair_list n dims ! pair_index dims h p q = (h', p', q')" by blast
  from pair_index_inj [OF assms(2,3) r(2,3,4)] r(5) show ?thesis by simp
qed

lemma write_run_Nil: "write_run v [] i0 V = V"
  by (rule nth_equalityI) (simp_all add: write_run_def)

lemma write_run_Cons: "write_run v xs (Suc i0) (V[i0 := v x]) = write_run v (x # xs) i0 V"
proof (rule nth_equalityI)
  show "length (write_run v xs (Suc i0) (V[i0 := v x])) = length (write_run v (x # xs) i0 V)"
    by (simp add: write_run_def)
next
  fix m assume "m < length (write_run v xs (Suc i0) (V[i0 := v x]))"
  then have m: "m < length V" by (simp add: write_run_def)
  consider "m < i0" | "m = i0" | "i0 < m" by linarith
  then show "write_run v xs (Suc i0) (V[i0 := v x]) ! m = write_run v (x # xs) i0 V ! m"
  proof cases
    case 1
    then show ?thesis using m by (simp add: write_run_def)
  next
    case 2
    then show ?thesis using m by (simp add: write_run_def)
  next
    case 3
    then obtain d where "m = Suc (i0 + d)" using less_iff_Suc_add by auto
    then show ?thesis using m by (simp add: write_run_def)
  qed
qed

lemma form_G_pack_fold:
  "fold (\<lambda>(h, p, q) (ij, Dc_vector, Do_vector).
        if p \<noteq> q
        then (ij + 1, Dc_vector[ij := 2.0 * mat_get Dc h p q],
                      Do_vector[ij := 2.0 * mat_get Do h p q])
        else (ij + 1, Dc_vector[ij := mat_get Dc h p q],
                      Do_vector[ij := mat_get Do h p q])) ts (i0, V, W) =
   (i0 + length ts,
    write_run (\<lambda>(h, p, q). if p \<noteq> q then 2 * Dc h p q else Dc h p q) ts i0 V,
    write_run (\<lambda>(h, p, q). if p \<noteq> q then 2 * Do h p q else Do h p q) ts i0 W)"
proof (induction ts arbitrary: i0 V W)
  case Nil
  show ?case by (simp add: write_run_Nil)
next
  case (Cons x xs)
  obtain h p q where x: "x = (h, p, q)" by (cases x)
  show ?case
    by (simp add: x Cons write_run_Cons [symmetric] mat_get_def)
qed

lemma add_run_0: "add_run u 0 G = G"
  by (simp add: add_run_def map_nth)

lemma add_run_Suc: "(add_run u n G)[n := add_run u n G ! n + u n] = add_run u (Suc n) G"
proof (rule nth_equalityI)
  show "length ((add_run u n G)[n := add_run u n G ! n + u n]) = length (add_run u (Suc n) G)"
    by (simp add: add_run_def)
next
  fix m assume "m < length ((add_run u n G)[n := add_run u n G ! n + u n])"
  then have m: "m < length G" by (simp add: add_run_def)
  show "(add_run u n G)[n := add_run u n G ! n + u n] ! m = add_run u (Suc n) G ! m"
    using m by (cases "m = n") (simp_all add: add_run_def)
qed

lemma double_update:
  "(X[i := X ! i + p])[i := X[i := X ! i + p] ! i + q] = X[i := X ! i + (p + q :: real)]"
  by (cases "i < length X") (simp_all add: add.assoc list_update_beyond)

lemma form_G_inner_fold:
  "fold (form_G_inner pk k Dc Do Dc_pq Do_pq) [0..<n] (a, c, G, H, b) =
     (a + (\<Sum>rs<n. pk ! (b + rs) * Dc ! rs + pk ! (b + rs) * Do ! rs / 2),
      c + (\<Sum>rs<n. pk ! (b + rs) * Dc ! rs / 2 + (pk ! (b + rs) + k ! (b + rs)) * Do ! rs / 4),
      add_run (\<lambda>m. pk ! (b + m) * Dc_pq + pk ! (b + m) * Do_pq / 2) n G,
      add_run (\<lambda>m. pk ! (b + m) * Dc_pq / 2 + (pk ! (b + m) + k ! (b + m)) * Do_pq / 4) n H,
      b + n)"
  (is "?L n = ?R n")
proof (induction n)
  case 0
  show ?case by (simp add: add_run_0)
next
  case (Suc n)
  let ?uA = "\<lambda>m. pk ! (b + m) * Dc_pq + pk ! (b + m) * Do_pq / 2"
  let ?uC = "\<lambda>m. pk ! (b + m) * Dc_pq / 2 + (pk ! (b + m) + k ! (b + m)) * Do_pq / 4"
  have "?L (Suc n) = form_G_inner pk k Dc Do Dc_pq Do_pq n (?L n)" by simp
  also have "\<dots> = form_G_inner pk k Dc Do Dc_pq Do_pq n (?R n)" by (simp only: Suc)
  also have "\<dots> = ?R (Suc n)"
    unfolding form_G_inner_def Let_def prod.case double_update
    using add_run_Suc [of ?uA n G] add_run_Suc [of ?uC n H]
    by (simp add: add.assoc)
  finally show ?case .
qed

lemma sweep_vec_0: "sweep_vec f g 0 N = replicate N 0"
  by (simp add: sweep_vec_def map_replicate_const)

lemma sweep_vec_step:
  assumes "P < N"
  shows "(add_run (g P) (Suc P) (sweep_vec f g P N))
           [P := add_run (g P) (Suc P) (sweep_vec f g P N) ! P + (\<Sum>rs<Suc P. f P rs)] =
         sweep_vec f g (Suc P) N"
proof (rule nth_equalityI)
  show "length ((add_run (g P) (Suc P) (sweep_vec f g P N))
           [P := add_run (g P) (Suc P) (sweep_vec f g P N) ! P + (\<Sum>rs<Suc P. f P rs)]) =
        length (sweep_vec f g (Suc P) N)"
    by (simp add: add_run_def sweep_vec_def)
next
  fix m
  assume "m < length ((add_run (g P) (Suc P) (sweep_vec f g P N))
           [P := add_run (g P) (Suc P) (sweep_vec f g P N) ! P + (\<Sum>rs<Suc P. f P rs)])"
  then have m: "m < N" by (simp add: add_run_def sweep_vec_def)
  consider "m < P" | "m = P" | "P < m" by linarith
  then show "(add_run (g P) (Suc P) (sweep_vec f g P N))
           [P := add_run (g P) (Suc P) (sweep_vec f g P N) ! P + (\<Sum>rs<Suc P. f P rs)] ! m =
        sweep_vec f g (Suc P) N ! m"
  proof cases
    case 1
    then show ?thesis using m assms
      by (simp add: add_run_def sweep_vec_def sum.atLeastLessThan_Suc del: sum.lessThan_Suc)
  next
    case 2
    then show ?thesis using assms
      by (simp add: add_run_def sweep_vec_def del: sum.lessThan_Suc)
  next
    case 3
    then show ?thesis using m assms
      by (simp add: add_run_def sweep_vec_def del: sum.lessThan_Suc)
  qed
qed

lemma form_G_outer_fold:
  assumes "P \<le> N"
  shows "fold (form_G_outer pk k Dc Do) [0..<P] (replicate N 0, replicate N 0, 0) =
     (sweep_vec (\<lambda>m rs. pk ! (tri m + rs) * Dc ! rs + pk ! (tri m + rs) * Do ! rs / 2)
                (\<lambda>pq m. pk ! (tri pq + m) * Dc ! pq + pk ! (tri pq + m) * Do ! pq / 2) P N,
      sweep_vec (\<lambda>m rs. pk ! (tri m + rs) * Dc ! rs / 2
                          + (pk ! (tri m + rs) + k ! (tri m + rs)) * Do ! rs / 4)
                (\<lambda>pq m. pk ! (tri pq + m) * Dc ! pq / 2
                          + (pk ! (tri pq + m) + k ! (tri pq + m)) * Do ! pq / 4) P N,
      tri P)"
  (is "?L P = (sweep_vec ?fc ?gc P N, sweep_vec ?fo ?go P N, tri P)")
  using assms
proof (induction P)
  case 0
  show ?case by (simp add: sweep_vec_0 tri_def)
next
  case (Suc P)
  then have P: "P < N" by simp
  have "?L (Suc P) = form_G_outer pk k Dc Do P (?L P)" by simp
  also have "\<dots> = form_G_outer pk k Dc Do P (sweep_vec ?fc ?gc P N, sweep_vec ?fo ?go P N, tri P)"
    using Suc by simp
  also have "\<dots> = (sweep_vec ?fc ?gc (Suc P) N, sweep_vec ?fo ?go (Suc P) N, tri (Suc P))"
    unfolding form_G_outer_def Let_def prod.case form_G_inner_fold
    using sweep_vec_step [OF P, of ?gc ?fc] sweep_vec_step [OF P, of ?go ?fo]
    by (simp add: tri_Suc del: sum.lessThan_Suc)
  finally show ?case .
qed

lemma form_G_sweep_closed:
  "form_G_sweep st Dc Do =
     (sweep_vec (\<lambda>m rs. pk_' st ! (tri m + rs) * Dc ! rs + pk_' st ! (tri m + rs) * Do ! rs / 2)
                (\<lambda>pq m. pk_' st ! (tri pq + m) * Dc ! pq + pk_' st ! (tri pq + m) * Do ! pq / 2)
                (pk_pairs_' st) (pk_pairs_' st),
      sweep_vec (\<lambda>m rs. pk_' st ! (tri m + rs) * Dc ! rs / 2
                          + (pk_' st ! (tri m + rs) + k_' st ! (tri m + rs)) * Do ! rs / 4)
                (\<lambda>pq m. pk_' st ! (tri pq + m) * Dc ! pq / 2
                          + (pk_' st ! (tri pq + m) + k_' st ! (tri pq + m)) * Do ! pq / 4)
                (pk_pairs_' st) (pk_pairs_' st),
      tri (pk_pairs_' st))"
  unfolding form_G_sweep_def by (rule form_G_outer_fold) simp

lemma form_G_unpack_as_fold:
  "form_G_unpack Gc_vector Go_vector st =
     fold (unpack_step Gc_vector Go_vector) (pair_list (nirreps st) (opi st)) (0, st)"
  unfolding form_G_unpack_def unpack_step_def by (rule fold_pair_list)

lemma unpack_step_other:
  assumes "(h', p', q') \<noteq> (h, i, j)" "(h', q', p') \<noteq> (h, i, j)"
  shows "Gc_' (snd (unpack_step V W (h', p', q') (i0, s))) h i j = Gc_' s h i j"
    and "Go_' (snd (unpack_step V W (h', p', q') (i0, s))) h i j = Go_' s h i j"
  using assms by (auto simp: unpack_step_def Let_def mat_set_def)

lemma unpack_step_fst: "fst (unpack_step V W x (i0, s)) = Suc i0"
  by (cases x) (simp add: unpack_step_def Let_def)

lemma unpack_untouched:
  assumes "\<forall>(h', p', q') \<in> set ts. (h', p', q') \<noteq> (h, i, j) \<and> (h', q', p') \<noteq> (h, i, j)"
  shows "Gc_' (snd (fold (unpack_step V W) ts (i0, s))) h i j = Gc_' s h i j
       \<and> Go_' (snd (fold (unpack_step V W) ts (i0, s))) h i j = Go_' s h i j"
  using assms
proof (induction ts arbitrary: i0 s)
  case Nil
  show ?case by simp
next
  case (Cons x xs)
  obtain h' p' q' where x: "x = (h', p', q')" by (cases x)
  obtain i1 s1 where s1: "unpack_step V W x (i0, s) = (i1, s1)" by (cases "unpack_step V W x (i0, s)")
  have "Gc_' s1 h i j = Gc_' s h i j \<and> Go_' s1 h i j = Go_' s h i j"
    using unpack_step_other [of h' p' q' h i j V W i0 s] Cons.prems s1 by (simp add: x)
  moreover have "Gc_' (snd (fold (unpack_step V W) xs (i1, s1))) h i j = Gc_' s1 h i j
       \<and> Go_' (snd (fold (unpack_step V W) xs (i1, s1))) h i j = Go_' s1 h i j"
    using Cons.prems by (intro Cons.IH) simp
  ultimately show ?case by (simp add: s1)
qed

lemma unpack_step_here:
  "Gc_' (snd (unpack_step V W (h, p, q) (i0, s))) h p q = 2 * V ! i0"
  "Gc_' (snd (unpack_step V W (h, p, q) (i0, s))) h q p = 2 * V ! i0"
  "Go_' (snd (unpack_step V W (h, p, q) (i0, s))) h p q = 2 * W ! i0"
  "Go_' (snd (unpack_step V W (h, p, q) (i0, s))) h q p = 2 * W ! i0"
  by (simp_all add: unpack_step_def Let_def mat_set_def)

lemma unpack_written:
  assumes "k < length ts" "ts ! k = (h, p, q)"
    and "\<forall>k'<length ts. k < k' \<longrightarrow>
           (case ts ! k' of (h', p', q') \<Rightarrow>
              (h', p', q') \<noteq> (h, p, q) \<and> (h', q', p') \<noteq> (h, p, q)
              \<and> (h', p', q') \<noteq> (h, q, p) \<and> (h', q', p') \<noteq> (h, q, p))"
  shows "Gc_' (snd (fold (unpack_step V W) ts (i0, s))) h p q = 2 * V ! (i0 + k)
       \<and> Gc_' (snd (fold (unpack_step V W) ts (i0, s))) h q p = 2 * V ! (i0 + k)
       \<and> Go_' (snd (fold (unpack_step V W) ts (i0, s))) h p q = 2 * W ! (i0 + k)
       \<and> Go_' (snd (fold (unpack_step V W) ts (i0, s))) h q p = 2 * W ! (i0 + k)"
  using assms
proof (induction ts arbitrary: k i0 s)
  case Nil
  then show ?case by simp
next
  case (Cons x xs)
  obtain i1 s1 where s1: "unpack_step V W x (i0, s) = (i1, s1)" by (cases "unpack_step V W x (i0, s)")
  have i1: "i1 = Suc i0" using unpack_step_fst [of V W x i0 s] s1 by simp
  show ?case
  proof (cases k)
    case 0
    then have x: "x = (h, p, q)" using Cons.prems by simp
    have later: "\<forall>(h', p', q') \<in> set xs.
              (h', p', q') \<noteq> (h, p, q) \<and> (h', q', p') \<noteq> (h, p, q)
              \<and> (h', p', q') \<noteq> (h, q, p) \<and> (h', q', p') \<noteq> (h, q, p)"
    proof
      fix y assume "y \<in> set xs"
      then obtain m where m: "m < length xs" "xs ! m = y" by (auto simp: in_set_conv_nth)
      with Cons.prems(3) [rule_format, of "Suc m"] 0
      show "case y of (h', p', q') \<Rightarrow>
              (h', p', q') \<noteq> (h, p, q) \<and> (h', q', p') \<noteq> (h, p, q)
              \<and> (h', p', q') \<noteq> (h, q, p) \<and> (h', q', p') \<noteq> (h, q, p)"
        by simp
    qed
    have a: "Gc_' (snd (fold (unpack_step V W) xs (i1, s1))) h p q = Gc_' s1 h p q
       \<and> Go_' (snd (fold (unpack_step V W) xs (i1, s1))) h p q = Go_' s1 h p q"
      using later by (intro unpack_untouched) auto
    have b: "Gc_' (snd (fold (unpack_step V W) xs (i1, s1))) h q p = Gc_' s1 h q p
       \<and> Go_' (snd (fold (unpack_step V W) xs (i1, s1))) h q p = Go_' s1 h q p"
      using later by (intro unpack_untouched) auto
    have "s1 = snd (unpack_step V W (h, p, q) (i0, s))" using s1 x by simp
    then show ?thesis using a b 0 by (simp add: s1 unpack_step_here)
  next
    case (Suc k')
    have "Gc_' (snd (fold (unpack_step V W) xs (i1, s1))) h p q = 2 * V ! (i1 + k')
       \<and> Gc_' (snd (fold (unpack_step V W) xs (i1, s1))) h q p = 2 * V ! (i1 + k')
       \<and> Go_' (snd (fold (unpack_step V W) xs (i1, s1))) h p q = 2 * W ! (i1 + k')
       \<and> Go_' (snd (fold (unpack_step V W) xs (i1, s1))) h q p = 2 * W ! (i1 + k')"
    proof (rule Cons.IH)
      show "k' < length xs" using Cons.prems(1) Suc by simp
      show "xs ! k' = (h, p, q)" using Cons.prems(2) Suc by simp
      show "\<forall>m<length xs. k' < m \<longrightarrow>
           (case xs ! m of (h', p', q') \<Rightarrow>
              (h', p', q') \<noteq> (h, p, q) \<and> (h', q', p') \<noteq> (h, p, q)
              \<and> (h', p', q') \<noteq> (h, q, p) \<and> (h', q', p') \<noteq> (h, q, p))"
      proof (intro allI impI)
        fix m assume "m < length xs" "k' < m"
        with Cons.prems(3) [rule_format, of "Suc m"] Suc
        show "case xs ! m of (h', p', q') \<Rightarrow>
              (h', p', q') \<noteq> (h, p, q) \<and> (h', q', p') \<noteq> (h, p, q)
              \<and> (h', p', q') \<noteq> (h, q, p) \<and> (h', q', p') \<noteq> (h, q, p)"
          by simp
      qed
    qed
    then show ?thesis by (simp add: s1 i1 Suc)
  qed
qed

lemma pair_list_later:
  assumes "h < n" "q \<le> p" "p < dims ! h"
    and "k' < length (pair_list n dims)" "k' \<noteq> pair_index dims h p q"
  shows "case pair_list n dims ! k' of (h', p', q') \<Rightarrow>
              (h', p', q') \<noteq> (h, p, q) \<and> (h', q', p') \<noteq> (h, p, q)
              \<and> (h', p', q') \<noteq> (h, q, p) \<and> (h', q', p') \<noteq> (h, q, p)"
proof -
  from pair_list_nth [of k' dims n] assms(4) obtain h' p' q' where
    r: "h' < n" "q' \<le> p'" "p' < dims ! h'" "k' = pair_index dims h' p' q'"
      "pair_list n dims ! k' = (h', p', q')"
    by (auto simp: length_pair_list)
  have "(h', p', q') \<noteq> (h, p, q)" using r(4) assms(5) by auto
  moreover have "(h', q', p') \<noteq> (h, q, p)" using r(4) assms(5) by auto
  moreover have "(h', q', p') \<noteq> (h, p, q)"
  proof
    assume "(h', q', p') = (h, p, q)"
    then have "h' = h" "p' = q" "q' = p" by simp_all
    with r(2) assms(2) have "p' = p" "q' = q" by simp_all
    with \<open>h' = h\<close> r(4) assms(5) show False by simp
  qed
  moreover have "(h', p', q') \<noteq> (h, q, p)"
  proof
    assume "(h', p', q') = (h, q, p)"
    then have "h' = h" "p' = q" "q' = p" by simp_all
    with r(2) assms(2) have "p' = p" "q' = q" by simp_all
    with \<open>h' = h\<close> r(4) assms(5) show False by simp
  qed
  ultimately show ?thesis by (simp add: r(5))
qed

lemma form_G_unpack_entry:
  assumes "h < nirreps st" "q \<le> p" "p < opi st ! h"
  shows "Gc_' (snd (form_G_unpack V W st)) h p q = 2 * V ! pair_index (opi st) h p q
       \<and> Gc_' (snd (form_G_unpack V W st)) h q p = 2 * V ! pair_index (opi st) h p q
       \<and> Go_' (snd (form_G_unpack V W st)) h p q = 2 * W ! pair_index (opi st) h p q
       \<and> Go_' (snd (form_G_unpack V W st)) h q p = 2 * W ! pair_index (opi st) h p q"
proof -
  let ?ts = "pair_list (nirreps st) (opi st)"
  let ?k = "pair_index (opi st) h p q"
  have k: "?k < length ?ts"
    using pair_index_less [OF assms] by (simp add: length_pair_list)
  have at: "?ts ! ?k = (h, p, q)"
    by (rule pair_list_at_index [OF assms])
  have later: "\<forall>k'<length ?ts. ?k < k' \<longrightarrow>
           (case ?ts ! k' of (h', p', q') \<Rightarrow>
              (h', p', q') \<noteq> (h, p, q) \<and> (h', q', p') \<noteq> (h, p, q)
              \<and> (h', p', q') \<noteq> (h, q, p) \<and> (h', q', p') \<noteq> (h, q, p))"
    using pair_list_later [OF assms] by auto
  from unpack_written [OF k at later, of V W 0 st] show ?thesis
    by (simp add: form_G_unpack_as_fold)
qed

lemma form_G_pack_closed:
  "form_G_pack st = (length (pair_list (nirreps st) (opi st)), Dc_packed st, Do_packed st)"
proof -
  have w: "write_run v ts 0 (replicate N 0) =
      map (\<lambda>m. if m < length ts then v (ts ! m) else 0) [0..<N]" for v :: "nat \<times> nat \<times> nat \<Rightarrow> real" and ts N
    by (rule nth_equalityI) (simp_all add: write_run_def)
  have "form_G_pack st =
     fold (\<lambda>(h, p, q) (ij, Dc_vector, Do_vector).
        if p \<noteq> q
        then (ij + 1, Dc_vector[ij := 2.0 * mat_get (Dc_' st) h p q],
                      Do_vector[ij := 2.0 * mat_get (Do_' st) h p q])
        else (ij + 1, Dc_vector[ij := mat_get (Dc_' st) h p q],
                      Do_vector[ij := mat_get (Do_' st) h p q]))
       (pair_list (nirreps st) (opi st))
       (0, replicate (pk_pairs_' st) 0, replicate (pk_pairs_' st) 0)"
    unfolding form_G_pack_def by (rule fold_pair_list)
  then show ?thesis
    unfolding form_G_pack_fold w by (simp add: Dc_packed_def Do_packed_def)
qed

lemma sweep_vec_Gc:
  assumes "n < N"
  shows "sweep_vec (\<lambda>m rs. pk ! (tri m + rs) * Dc ! rs + pk ! (tri m + rs) * Do ! rs / 2)
                (\<lambda>pq m. pk ! (tri pq + m) * Dc ! pq + pk ! (tri pq + m) * Do ! pq / 2) N N ! n =
     (\<Sum>rs<Suc n. pk ! INDEX2 n rs * Dc ! rs + 0.5 * pk ! INDEX2 n rs * Do ! rs)
   + (\<Sum>pq = n..<N. pk ! INDEX2 pq n * Dc ! pq + 0.5 * pk ! INDEX2 pq n * Do ! pq)"
proof -
  have a: "(\<Sum>rs<Suc n. pk ! (tri n + rs) * Dc ! rs + pk ! (tri n + rs) * Do ! rs / 2) =
      (\<Sum>rs<Suc n. pk ! INDEX2 n rs * Dc ! rs + 0.5 * pk ! INDEX2 n rs * Do ! rs)"
    by (rule sum.cong) (simp_all add: INDEX2_tri)
  have b: "(\<Sum>pq = n..<N. pk ! (tri pq + n) * Dc ! pq + pk ! (tri pq + n) * Do ! pq / 2) =
      (\<Sum>pq = n..<N. pk ! INDEX2 pq n * Dc ! pq + 0.5 * pk ! INDEX2 pq n * Do ! pq)"
    by (rule sum.cong) (simp_all add: INDEX2_tri)
  show ?thesis
    using assms unfolding sweep_vec_def a [symmetric] b [symmetric]
    by (simp del: sum.lessThan_Suc)
qed

lemma sweep_vec_Go:
  assumes "n < N"
  shows "sweep_vec (\<lambda>m rs. pk ! (tri m + rs) * Dc ! rs / 2
                          + (pk ! (tri m + rs) + k ! (tri m + rs)) * Do ! rs / 4)
                (\<lambda>pq m. pk ! (tri pq + m) * Dc ! pq / 2
                          + (pk ! (tri pq + m) + k ! (tri pq + m)) * Do ! pq / 4) N N ! n =
     (\<Sum>rs<Suc n. 0.5 * pk ! INDEX2 n rs * Dc ! rs
                  + 0.25 * (pk ! INDEX2 n rs + k ! INDEX2 n rs) * Do ! rs)
   + (\<Sum>pq = n..<N. 0.5 * pk ! INDEX2 pq n * Dc ! pq
                  + 0.25 * (pk ! INDEX2 pq n + k ! INDEX2 pq n) * Do ! pq)"
proof -
  have a: "(\<Sum>rs<Suc n. pk ! (tri n + rs) * Dc ! rs / 2
                          + (pk ! (tri n + rs) + k ! (tri n + rs)) * Do ! rs / 4) =
      (\<Sum>rs<Suc n. 0.5 * pk ! INDEX2 n rs * Dc ! rs
                  + 0.25 * (pk ! INDEX2 n rs + k ! INDEX2 n rs) * Do ! rs)"
    by (rule sum.cong) (simp_all add: INDEX2_tri)
  have b: "(\<Sum>pq = n..<N. pk ! (tri pq + n) * Dc ! pq / 2
                          + (pk ! (tri pq + n) + k ! (tri pq + n)) * Do ! pq / 4) =
      (\<Sum>pq = n..<N. 0.5 * pk ! INDEX2 pq n * Dc ! pq
                  + 0.25 * (pk ! INDEX2 pq n + k ! INDEX2 pq n) * Do ! pq)"
    by (rule sum.cong) (simp_all add: INDEX2_tri)
  show ?thesis
    using assms unfolding sweep_vec_def a [symmetric] b [symmetric]
    by (simp del: sum.lessThan_Suc)
qed

lemma form_G_from_PK_closed:
  "form_G_from_PK st =
     snd (form_G_unpack
            (fst (form_G_sweep st (Dc_packed st) (Do_packed st)))
            (fst (snd (form_G_sweep st (Dc_packed st) (Do_packed st))))
            (st\<lparr>Gc_' := mat_zero, Go_' := mat_zero\<rparr>))"
proof -
  let ?s0 = "st\<lparr>Gc_' := mat_zero, Go_' := mat_zero\<rparr>"
  have p: "Dc_packed ?s0 = Dc_packed st" "Do_packed ?s0 = Do_packed st"
    by (simp_all add: Dc_packed_def Do_packed_def split_def)
  have s: "form_G_sweep ?s0 = form_G_sweep st"
    by (simp add: form_G_sweep_def fun_eq_iff)
  show ?thesis
    unfolding form_G_from_PK_def Let_def
    by (simp add: form_G_pack_closed p s split_def)
qed

text \<open>
  C5. For every irrep \<open>h\<close> and \<open>q \<le> p\<close> in its block, with at least as many entries in
  the pair vectors as there are pairs and supermatrices that hold the whole triangle
  of pairs: after \<open>form_G_from_PK\<close> the entries \<open>(h, p, q)\<close>
  and \<open>(h, q, p)\<close> of \<open>Gc\<close> are twice the closed G vector at the pair index of
  \<open>(h, p, q)\<close>, and those of \<open>Go\<close> twice the open G vector. The G vectors are the sums
  that the single sweep over \<open>rs \<le> pq\<close> collects in both directions from the packed
  densities, whose off-diagonal entries are doubled.
\<close>

theorem form_G_from_PK_contraction:
  assumes "h < nirreps st" and "q \<le> p" and "p < opi st ! h"
    and "length (pair_list (nirreps st) (opi st)) \<le> pk_pairs_' st"
    and "tri (pk_pairs_' st) \<le> length (pk_' st)" and "tri (pk_pairs_' st) \<le> length (k_' st)"
  shows "Gc_' (form_G_from_PK st) h p q = 2 * Gc_contracted st (pair_index (opi st) h p q)
       \<and> Gc_' (form_G_from_PK st) h q p = 2 * Gc_contracted st (pair_index (opi st) h p q)
       \<and> Go_' (form_G_from_PK st) h p q = 2 * Go_contracted st (pair_index (opi st) h p q)
       \<and> Go_' (form_G_from_PK st) h q p = 2 * Go_contracted st (pair_index (opi st) h p q)"
proof -
  let ?s0 = "st\<lparr>Gc_' := mat_zero, Go_' := mat_zero\<rparr>"
  let ?n = "pair_index (opi st) h p q"
  have n: "?n < pk_pairs_' st"
    using pair_index_less [OF assms(1-3)] assms(4) by (simp add: length_pair_list)
  have a: "h < nirreps ?s0" "q \<le> p" "p < opi ?s0 ! h"
    using assms by simp_all
  have "fst (form_G_sweep st (Dc_packed st) (Do_packed st)) ! ?n = Gc_contracted st ?n"
    unfolding form_G_sweep_closed fst_conv Gc_contracted_def by (rule sweep_vec_Gc [OF n])
  moreover have "fst (snd (form_G_sweep st (Dc_packed st) (Do_packed st))) ! ?n = Go_contracted st ?n"
    unfolding form_G_sweep_closed fst_conv snd_conv Go_contracted_def by (rule sweep_vec_Go [OF n])
  ultimately show ?thesis
    unfolding form_G_from_PK_closed
    using form_G_unpack_entry [OF a, of "fst (form_G_sweep st (Dc_packed st) (Do_packed st))"
        "fst (snd (form_G_sweep st (Dc_packed st) (Do_packed st)))"]
    by simp
qed

lemma pair_list_example: "pair_list (Suc 0) [2] = [(0, 0, 0), (0, 1, 0), (0, 1, 1)]"
  by (simp add: pair_list_def pair_block_def upt_small upt_rec)

lemma dense_fields:
  "nirreps dense_rohf = 1" "opi dense_rohf = [2]" "pk_pairs_' dense_rohf = 3"
  "pk_' dense_rohf = [1, 2, 3, 4, 5, 6]" "k_' dense_rohf = [6, 5, 4, 3, 2, 1]"
  "Dc_' dense_rohf = (\<lambda>h i j. 1)" "Do_' dense_rohf = (\<lambda>h i j. 2)"
  by (simp_all add: dense_rohf_def filled_rohf_def example_rohf_def)

lemma dense_packed: "Dc_packed dense_rohf = [1, 2, 1]" "Do_packed dense_rohf = [2, 4, 2]"
  by (simp_all add: Dc_packed_def Do_packed_def dense_fields pair_list_example upt_small)

lemma sum_from_1_below_3: "(\<Sum>k = Suc 0..<3. f k) = (f (Suc 0) + f 2 :: real)"
proof -
  have "{Suc 0..<3} = {Suc 0, 2}" by auto
  then show ?thesis by simp
qed

theorem form_G_from_PK_contraction_witness:
  "0 < nirreps dense_rohf \<and> (0::nat) \<le> 1 \<and> 1 < opi dense_rohf ! 0
   \<and> length (pair_list (nirreps dense_rohf) (opi dense_rohf)) \<le> pk_pairs_' dense_rohf
   \<and> tri (pk_pairs_' dense_rohf) \<le> length (pk_' dense_rohf)
   \<and> tri (pk_pairs_' dense_rohf) \<le> length (k_' dense_rohf)
   \<and> Gc_' (form_G_from_PK dense_rohf) 0 1 0 = 76 \<and> Gc_' (form_G_from_PK dense_rohf) 0 0 1 = 76
   \<and> Go_' (form_G_from_PK dense_rohf) 0 1 0 = 61 \<and> Go_' (form_G_from_PK dense_rohf) 0 0 1 = 61"
proof -
  have i: "pair_index (opi dense_rohf) 0 (Suc 0) 0 = Suc 0"
    by (simp add: pair_index_def pair_offset_def tri_def)
  have c: "Gc_contracted dense_rohf (Suc 0) = 38"
    by (simp add: Gc_contracted_def dense_packed dense_fields INDEX2_def sum_from_1_below_3)
  have o: "Go_contracted dense_rohf (Suc 0) = 61 / 2"
    by (simp add: Go_contracted_def dense_packed dense_fields INDEX2_def sum_from_1_below_3)
  have h: "0 < nirreps dense_rohf" "(0::nat) \<le> 1" "1 < opi dense_rohf ! 0"
    "length (pair_list (nirreps dense_rohf) (opi dense_rohf)) \<le> pk_pairs_' dense_rohf"
    "tri (pk_pairs_' dense_rohf) \<le> length (pk_' dense_rohf)"
    "tri (pk_pairs_' dense_rohf) \<le> length (k_' dense_rohf)"
    by (simp_all add: dense_fields pair_list_example tri_def)
  from form_G_from_PK_contraction [OF h] h show ?thesis
    by (simp add: i c o)
qed

section \<open>The effective Fock matrix: block structure\<close>

lemma sym_write_empty: "hi \<le> lo \<Longrightarrow> sym_write h i lo hi v F = F"
  by (auto simp: sym_write_def fun_eq_iff)

lemma sym_write_step:
  "lo \<le> hi \<Longrightarrow>
   mat_set (mat_set (sym_write h i lo hi v F) h i hi (v hi)) h hi i (v hi) = sym_write h i lo (Suc hi) v F"
  by (auto simp: sym_write_def mat_set_def fun_eq_iff)

lemma Feff_cong: "F = F' \<Longrightarrow> st\<lparr>Feff_' := F\<rparr> = st\<lparr>Feff_' := F'\<rparr>"
  by simp

lemma sym_write_fold:
  "fold (\<lambda>j st.
       let val = v j;
           st = st\<lparr>Feff_' := mat_set (Feff_' st) h i j val\<rparr>
       in st\<lparr>Feff_' := mat_set (Feff_' st) h j i val\<rparr>) [lo..<hi] st =
   st\<lparr>Feff_' := sym_write h i lo hi v (Feff_' st)\<rparr>"
  (is "fold ?f [lo..<hi] st = ?R hi")
proof (induction hi)
  case 0
  show ?case by (simp add: sym_write_empty)
next
  case (Suc hi)
  show ?case
  proof (cases "lo \<le> hi")
    case True
    have "fold ?f [lo..<Suc hi] st = ?f hi (fold ?f [lo..<hi] st)"
      using True by simp
    also have "\<dots> = ?f hi (?R hi)" by (simp only: Suc)
    also have "\<dots> = ?R (Suc hi)"
      by (simp add: Let_def sym_write_step [OF True])
    finally show ?thesis .
  next
    case False
    then show ?thesis by (simp add: sym_write_empty)
  qed
qed

lemma form_F_open_row_closed:
  "form_F_open_row Fct Fot h i st =
     st\<lparr>Feff_' :=
        sym_write h i (doccpi_' st ! h) (doccpi_' st ! h + soccpi_' st ! h) (\<lambda>j. Fot h i j)
          (sym_write h i (doccpi_' st ! h + soccpi_' st ! h) (opi st ! h) (\<lambda>j. 2 * Fot h i j)
            (sym_write h i 0 (doccpi_' st ! h) (\<lambda>j. 2 * (Fct h i j - Fot h i j)) (Feff_' st)))\<rparr>"
  unfolding form_F_open_row_def mat_get_def sym_write_fold
  by (simp add: Let_def)

lemma open_rows_result_none: "r \<le> d \<Longrightarrow> open_rows_result Fct Fot h d s n r F = F"
  by (auto simp: open_rows_result_def fun_eq_iff)

lemma open_rows_result_step:
  assumes "d \<le> r" "r < d + s"
  shows "sym_write h r d (d + s) (\<lambda>j. Fot h r j)
          (sym_write h r (d + s) n (\<lambda>j. 2 * Fot h r j)
            (sym_write h r 0 d (\<lambda>j. 2 * (Fct h r j - Fot h r j))
              (open_rows_result Fct Fot h d s n r F))) =
         open_rows_result Fct Fot h d s n (Suc r) F"
proof (intro ext)
  fix h' a b
  show "sym_write h r d (d + s) (\<lambda>j. Fot h r j)
          (sym_write h r (d + s) n (\<lambda>j. 2 * Fot h r j)
            (sym_write h r 0 d (\<lambda>j. 2 * (Fct h r j - Fot h r j))
              (open_rows_result Fct Fot h d s n r F))) h' a b =
         open_rows_result Fct Fot h d s n (Suc r) F h' a b"
  proof (cases "h' = h")
    case False
    then show ?thesis by (simp add: sym_write_def open_rows_result_def)
  next
    case True
    consider "a = r" "b = r" | "a = r" "b \<noteq> r" | "a \<noteq> r" "b = r" | "a \<noteq> r" "b \<noteq> r"
      by blast
    then show ?thesis
    proof cases
      case 1
      then show ?thesis using True assms by (simp add: sym_write_def open_rows_result_def)
    next
      case 2
      then show ?thesis using True assms
        by (auto simp: sym_write_def open_rows_result_def max_def min_def)
    next
      case 3
      then show ?thesis using True assms
        by (auto simp: sym_write_def open_rows_result_def max_def min_def)
    next
      case 4
      then show ?thesis using True assms
        by (auto simp: sym_write_def open_rows_result_def less_Suc_eq)
    qed
  qed
qed

lemma open_rows_fold:
  assumes "r \<le> doccpi_' st ! h + soccpi_' st ! h"
  shows "fold (form_F_open_row Fct Fot h) [doccpi_' st ! h..<r] st =
     st\<lparr>Feff_' := open_rows_result Fct Fot h (doccpi_' st ! h) (soccpi_' st ! h) (opi st ! h) r
                    (Feff_' st)\<rparr>"
  (is "?L r = ?R r")
  using assms
proof (induction r)
  case 0
  show ?case by (simp add: open_rows_result_none)
next
  case (Suc r)
  show ?case
  proof (cases "doccpi_' st ! h \<le> r")
    case True
    have "?L (Suc r) = form_F_open_row Fct Fot h r (?L r)" using True by simp
    also have "\<dots> = form_F_open_row Fct Fot h r (?R r)" using Suc by simp
    also have "\<dots> = ?R (Suc r)"
      using open_rows_result_step [of "doccpi_' st ! h" r "soccpi_' st ! h" h Fot "opi st ! h" Fct "Feff_' st"]
        True Suc.prems
      by (simp add: form_F_open_row_closed)
    finally show ?thesis .
  next
    case False
    then show ?thesis by (simp add: open_rows_result_none)
  qed
qed

lemma blocks_result_step:
  "open_rows_result Fct Fot N (docc ! N) (socc ! N) (dims ! N) (docc ! N + socc ! N)
     (blocks_result Fct Fot docc socc dims N F) =
   blocks_result Fct Fot docc socc dims (Suc N) F"
  by (intro ext) (simp add: blocks_result_def open_rows_result_def less_Suc_eq)

lemma blocks_fold:
  "fold (\<lambda>h st'. fold (form_F_open_row Fct Fot h)
             [doccpi_' st' ! h..<doccpi_' st' ! h + soccpi_' st' ! h] st') [0..<N] st =
   st\<lparr>Feff_' := blocks_result Fct Fot (doccpi_' st) (soccpi_' st) (opi st) N (Feff_' st)\<rparr>"
  (is "?L N = ?R N")
proof (induction N)
  case 0
  have "blocks_result Fct Fot (doccpi_' st) (soccpi_' st) (opi st) 0 (Feff_' st) = Feff_' st"
    by (simp add: blocks_result_def)
  then show ?case by simp
next
  case (Suc N)
  have "?L (Suc N) =
      fold (form_F_open_row Fct Fot N)
        [doccpi_' (?L N) ! N..<doccpi_' (?L N) ! N + soccpi_' (?L N) ! N] (?L N)"
    by simp
  also have "\<dots> = fold (form_F_open_row Fct Fot N)
        [doccpi_' (?R N) ! N..<doccpi_' (?R N) ! N + soccpi_' (?R N) ! N] (?R N)"
    by (simp only: Suc)
  also have "\<dots> = (?R N)\<lparr>Feff_' := open_rows_result Fct Fot N (doccpi_' (?R N) ! N)
        (soccpi_' (?R N) ! N) (opi (?R N) ! N) (doccpi_' (?R N) ! N + soccpi_' (?R N) ! N)
        (Feff_' (?R N))\<rparr>"
    by (rule open_rows_fold) simp
  also have "\<dots> = ?R (Suc N)"
    by (simp add: blocks_result_step)
  finally show ?case .
qed

text \<open>
  The block structure that \<open>form_F\<close> builds, for an irrep whose occupied orbitals fit
  into its block: the closed and virtual rows and columns keep the transformed closed
  Fock matrix; an open row against a closed column, and its mirror image, holds
  \<open>2 (Fc - Fo)\<close>; an open row against a virtual column, and its mirror image, holds
  \<open>2 Fo\<close>; the open-open block holds the transformed open Fock matrix, read at the
  greater and the smaller of the two indices.
\<close>

lemma form_F_blocks:
  assumes "h < nirreps st"
  defines "d \<equiv> doccpi_' st ! h" and "s \<equiv> soccpi_' st ! h"
    and "Fct \<equiv> mat_transform (opi st) (mat_add (H_' st) (Gc_' st)) (C_' st)"
    and "Fot \<equiv> mat_transform (opi st) (mat_add (mat_scale (H_' st) 0.5) (Go_' st)) (C_' st)"
  assumes "d + s \<le> opi st ! h" and "a < opi st ! h" and "b < opi st ! h"
  shows "Feff_' (form_F st) h a b =
     (if d \<le> a \<and> a < d + s \<and> d \<le> b \<and> b < d + s then Fot h (max a b) (min a b)
      else if d \<le> a \<and> a < d + s then
        (if b < d then 2 * (Fct h a b - Fot h a b) else 2 * Fot h a b)
      else if d \<le> b \<and> b < d + s then
        (if a < d then 2 * (Fct h b a - Fot h b a) else 2 * Fot h b a)
      else Fct h a b)"
  using assms(1,6,7,8)
  unfolding form_F_as_fold blocks_fold d_def s_def Fct_def Fot_def
  by (simp add: blocks_result_def open_rows_result_def)

end
